theory Spec2Isabelle
  imports Complex_Main "HOL-Library.Word" "HOL-Library.AList"
begin

unbundle bit_operations_syntax

section \<open>The VS Code extension: checksum validation (pfm-vscode/src/extension.ts)\<close>

subsection \<open>timingSafeEqual\<close>

text \<open>
  A JavaScript string is a sequence of 16-bit code units; \<^verbatim>\<open>charCodeAt(i)\<close> reads
  the unit at \<open>i\<close> and is \<^verbatim>\<open>NaN\<close> out of range. The bitwise operators work on
  32-bit integers.
\<close>

type_synonym jsstring = "16 word list"

text \<open>\<^verbatim>\<open>(a.charCodeAt(i) || 0)\<close>: \<^verbatim>\<open>NaN\<close> and \<open>0\<close> are both falsy, so the
  expression is the code unit in range and \<open>0\<close> out of range.\<close>

definition charCodeAt_or_0 :: "jsstring \<Rightarrow> nat \<Rightarrow> 32 word" where
  "charCodeAt_or_0 a i = (if i < length a then ucast (a ! i) else 0)"

text \<open>
  What a run of the function lets an observer see: each decision of its control flow
  (the conditional on the two lengths, then the loop test, once per turn and once at
  exit) and each position \<^verbatim>\<open>charCodeAt\<close> is called with, on \<open>a\<close> and on \<open>b\<close>.
  The operators \<^verbatim>\<open>||\<close>, \<^verbatim>\<open>^\<close>, \<^verbatim>\<open>|=\<close> and \<^verbatim>\<open>===\<close> work on the numbers
  already read and are taken to leave no trace of their own.
\<close>

datatype observation = Branch bool | CharCodeAt_a nat | CharCodeAt_b nat

text \<open>The \<^verbatim>\<open>for (let i = 0; i < len; i++)\<close> loop with its state \<open>(i, result)\<close>
  and what has been observed so far; the accumulator and the observations at exit are
  returned.\<close>

function timingSafeEqual_loop ::
  "jsstring \<Rightarrow> jsstring \<Rightarrow> nat \<Rightarrow> nat \<Rightarrow> 32 word \<Rightarrow> observation list \<Rightarrow>
   32 word \<times> observation list" where
  "timingSafeEqual_loop a b len i result seen =
     (if i < len
      then timingSafeEqual_loop a b len (i + 1)
             (result OR (charCodeAt_or_0 a i XOR charCodeAt_or_0 b i))
             (seen @ [Branch True, CharCodeAt_a i, CharCodeAt_b i])
      else (result, seen @ [Branch False]))"
  by pat_completeness auto
termination
  by (relation "measure (\<lambda>(a, b, len, i, result, seen). len - i)") auto

declare timingSafeEqual_loop.simps [simp del]

text \<open>The function returns \<^verbatim>\<open>result === 0\<close>; the model returns it with the
  observations of the run.\<close>

definition timingSafeEqual :: "jsstring \<Rightarrow> jsstring \<Rightarrow> bool \<times> observation list" where
  "timingSafeEqual a b =
     (let len = max (length a) (length b);
          result = (if length a = length b then 0 else 1);
          (result, seen) = timingSafeEqual_loop a b len 0 result [Branch (length a = length b)]
      in (result = 0, seen))"


subsection \<open>The command pfm.validateChecksum\<close>

text \<open>
  The parser and the checksum of the extension (\<^verbatim>\<open>./parser\<close>) are imported, not
  defined, by extension.ts: they are parameters here. Either may throw, which is the
  value \<open>None\<close>. Of the parsed document the command reads \<^verbatim>\<open>doc.meta.checksum\<close>
  and hands \<^verbatim>\<open>doc.sections\<close> to the checksum as they are. Of the comparison it
  uses the result.
\<close>

record 'sections ParsedPFM =
  meta :: "string \<rightharpoonup> jsstring"
  sections :: 'sections

record TextEditor =
  languageId :: string
  getText :: string

datatype notification =
    showWarningMessage string
  | showInformationMessage string
  | showErrorMessage string jsstring jsstring

text \<open>The handler's result is the message it shows; \<open>None\<close> when an exception of the
  parser or the checksum leaves the handler before any message. The error message is
  kept as its fixed head with the expected and the computed digest.\<close>

definition validateChecksum ::
  "(string \<Rightarrow> 'sections ParsedPFM option) \<Rightarrow> ('sections \<Rightarrow> jsstring option) \<Rightarrow>
   TextEditor option \<Rightarrow> notification option" where
  "validateChecksum parsePFM computeChecksum activeTextEditor =
     (case activeTextEditor of
        None \<Rightarrow> Some (showWarningMessage ''Open a .pfm file first.'')
      | Some editor \<Rightarrow>
          if languageId editor \<noteq> ''pfm''
          then Some (showWarningMessage ''Open a .pfm file first.'')
          else (case parsePFM (getText editor) of
                  None \<Rightarrow> None
                | Some doc \<Rightarrow>
                    (case meta doc ''checksum'' of
                       None \<Rightarrow> Some (showWarningMessage ''No checksum found in metadata.'')
                     | Some expected \<Rightarrow>
                         if expected = []
                         then Some (showWarningMessage ''No checksum found in metadata.'')
                         else (case computeChecksum (sections doc) of
                                 None \<Rightarrow> None
                               | Some actual \<Rightarrow>
                                   if fst (timingSafeEqual actual expected)
                                   then Some (showInformationMessage ''PFM Checksum: VALID'')
                                   else Some (showErrorMessage ''PFM Checksum: INVALID''
                                                expected actual)))))"

section \<open>The JSON importer (pfm-js/src/convert.ts)\<close>

subsection \<open>JSON values\<close>

text \<open>
  The value \<^verbatim>\<open>JSON.parse\<close> returns. An object carries its own properties as an
  association list read with \<open>map_of\<close>: the first binding of a key is the property's
  value (\<^verbatim>\<open>JSON.parse\<close> itself yields one binding per key). The importer never
  looks inside a number.
\<close>

datatype json =
    JNull
  | JBool bool
  | JNum rat
  | JStr string
  | JArr "json list"
  | JObj "(string \<times> json) list"

text \<open>\<^verbatim>\<open>Object.entries(o)\<close>: each own key once, with its value.\<close>

definition Object_entries :: "(string \<times> json) list \<Rightarrow> (string \<times> json) list" where
  "Object_entries props = AList.clearjunk props"

subsection \<open>Documents\<close>

record PFMSection =
  name :: string
  content :: string

text \<open>
  The document of \<^verbatim>\<open>types.ts\<close>, as \<open>fromJSON\<close> builds it. The type of meta is
  a parameter: in convert.ts it is a JavaScript object, here a map from keys to
  strings (nothing below depends on the order in which an object lists its keys); the
  specification's document has an ordered mapping, an association list.
\<close>

record 'meta PFMDocument =
  formatVersion :: string
  isStream :: bool
  meta :: 'meta
  sections :: "PFMSection list"

text \<open>What \<open>fromJSON\<close> throws: the \<^verbatim>\<open>SyntaxError\<close> of \<^verbatim>\<open>JSON.parse\<close>, the
  \<^verbatim>\<open>RangeError\<close> of \<^verbatim>\<open>JSON.stringify\<close>, and its own \<^verbatim>\<open>Error\<close> with a
  message.\<close>

datatype error = SyntaxError | RangeError | Error string

subsection \<open>fromJSON\<close>

definition FORBIDDEN_KEYS :: "string set" where
  "FORBIDDEN_KEYS = {''__proto__'', ''constructor'', ''prototype''}"

text \<open>One turn of the loop over \<^verbatim>\<open>Object.entries(rawMeta)\<close>.\<close>

definition safeMeta_step ::
  "string \<times> json \<Rightarrow> (string \<rightharpoonup> string) \<Rightarrow> (string \<rightharpoonup> string)" where
  "safeMeta_step entry safeMeta =
     (case entry of (key, val) \<Rightarrow>
        if key \<in> FORBIDDEN_KEYS then safeMeta
        else (case val of JStr v \<Rightarrow> safeMeta(key \<mapsto> v) | _ \<Rightarrow> safeMeta))"

text \<open>\<^verbatim>\<open>rawMeta && typeof rawMeta === 'object' && !Array.isArray(rawMeta)\<close> holds of
  an object only; \<open>None\<close> is \<^verbatim>\<open>undefined\<close>.\<close>

definition safeMeta_of :: "json option \<Rightarrow> (string \<rightharpoonup> string)" where
  "safeMeta_of rawMeta =
     (case rawMeta of
        Some (JObj props) \<Rightarrow> fold safeMeta_step (Object_entries props) Map.empty
      | _ \<Rightarrow> Map.empty)"

text \<open>The type guard of the first filter: an object whose \<^verbatim>\<open>name\<close> and
  \<^verbatim>\<open>content\<close> are strings, read as the section it is narrowed to.\<close>

definition as_section :: "json \<Rightarrow> PFMSection option" where
  "as_section s =
     (case s of
        JObj props \<Rightarrow>
          (case (map_of props ''name'', map_of props ''content'') of
             (Some (JStr n), Some (JStr c)) \<Rightarrow> Some \<lparr>name = n, content = c\<rparr>
           | _ \<Rightarrow> None)
      | _ \<Rightarrow> None)"

text \<open>\<^verbatim>\<open>/^[a-z0-9_-]+$/\<close>: one or more characters of the class, and nothing else.\<close>

definition VALID_NAME_class :: "char \<Rightarrow> bool" where
  "VALID_NAME_class c =
     ((97 \<le> (of_char c :: nat) \<and> (of_char c :: nat) \<le> 122)
      \<or> (48 \<le> (of_char c :: nat) \<and> (of_char c :: nat) \<le> 57)
      \<or> c = CHR ''_'' \<or> c = CHR ''-'')"

definition VALID_NAME_test :: "string \<Rightarrow> bool" where
  "VALID_NAME_test s =
     (case s of [] \<Rightarrow> False | c # cs \<Rightarrow> VALID_NAME_class c \<and> list_all VALID_NAME_class cs)"

definition RESERVED_NAMES :: "string set" where
  "RESERVED_NAMES = {''meta'', ''index'', ''index-trailing''}"

text \<open>The predicate of the second filter. Strings are byte strings here and
  \<^verbatim>\<open>length\<close> counts UTF-16 code units in JavaScript: a name that passes the regular
  expression is ASCII, where the two lengths are the same, and a name that is not
  ASCII fails the regular expression in either reading.\<close>

definition name_filter :: "PFMSection \<Rightarrow> bool" where
  "name_filter s =
     (length (name s) > 0 \<and> length (name s) \<le> 64 \<and>
      VALID_NAME_test (name s) \<and> name s \<notin> RESERVED_NAMES)"

text \<open>\<^verbatim>\<open>Array.isArray(data.sections) ? data.sections : []\<close>.\<close>

definition rawSections_of :: "json option \<Rightarrow> json list" where
  "rawSections_of data_sections =
     (case data_sections of Some (JArr elems) \<Rightarrow> elems | _ \<Rightarrow> [])"

text \<open>The two filters and the copying map; \<^verbatim>\<open>String(x)\<close> of a string is the string.\<close>

definition safeSections_of :: "json list \<Rightarrow> PFMSection list" where
  "safeSections_of rawSections =
     map (\<lambda>s. \<lparr>name = name s, content = content s\<rparr>)
       (filter name_filter (List.map_filter as_section rawSections))"

text \<open>A property read \<^verbatim>\<open>data.key\<close>, for the keys the importer reads (none of
  them is a property of an array, a string or a prototype): \<open>None\<close> is
  \<^verbatim>\<open>undefined\<close>.\<close>

definition property :: "json \<Rightarrow> string \<Rightarrow> json option" where
  "property data key = (case data of JObj props \<Rightarrow> map_of props key | _ \<Rightarrow> None)"

text \<open>The negation of the guard \<^verbatim>\<open>data === null || typeof data !== 'object' ||
  Array.isArray(data) || !('sections' in data)\<close>: an object with a key
  \<^verbatim>\<open>sections\<close>.\<close>

definition is_pfm_export :: "json \<Rightarrow> bool" where
  "is_pfm_export data =
     (case data of JObj props \<Rightarrow> map_of props ''sections'' \<noteq> None | _ \<Rightarrow> False)"

text \<open>
  \<open>fromJSON stringify now parsed\<close>. \<open>parsed\<close> is the outcome of
  \<^verbatim>\<open>JSON.parse(json)\<close>, \<open>None\<close> when it throws. The two library values of the
  wrapping branch are parameters: \<open>stringify\<close> is \<^verbatim>\<open>JSON.stringify(data, null, 2)\<close>
  and \<open>now\<close> is the creation time as the importer formats it. The call of
  \<^verbatim>\<open>JSON.stringify\<close> has no handler around it: on a value nested too deeply for
  the engine's stack it throws a \<^verbatim>\<open>RangeError\<close>, the value \<open>None\<close> of
  \<open>stringify\<close>, and the error leaves \<open>fromJSON\<close>.
\<close>

definition fromJSON ::
  "(json \<Rightarrow> string option) \<Rightarrow> string \<Rightarrow> json option \<Rightarrow>
   error + (string \<rightharpoonup> string) PFMDocument" where
  "fromJSON stringify now parsed =
     (case parsed of
        None \<Rightarrow> Inl SyntaxError
      | Some data \<Rightarrow>
          if \<not> is_pfm_export data
          then (case stringify data of
                  None \<Rightarrow> Inl RangeError
                | Some text \<Rightarrow>
                    Inr \<lparr>formatVersion = ''1.0'', isStream = False,
                         meta = [''agent'' \<mapsto> ''json-import'', ''created'' \<mapsto> now],
                         sections = [\<lparr>name = ''content'', content = text\<rparr>]\<rparr>)
          else
            let safeMeta = safeMeta_of (property data ''meta'');
                rawSections = rawSections_of (property data ''sections'');
                safeSections = safeSections_of rawSections;
                version = (case property data ''pfm_version'' of
                             Some (JStr v) \<Rightarrow> v | _ \<Rightarrow> ''1.0'')
            in if version \<noteq> ''1.0''
               then Inl (Error (''Unsupported PFM format version: ''
                                 @ [CHR 0x27] @ version @ [CHR 0x27]))
               else Inr \<lparr>formatVersion = version, isStream = False,
                        meta = safeMeta, sections = safeSections\<rparr>)"

subsection \<open>The section-name rule in the specification's words\<close>

text \<open>The specification: a name is a lowercase identifier matching
  \<^verbatim>\<open>[a-z0-9_-]+\<close>, 1 to 64 characters long, and not a reserved word (\<^verbatim>\<open>meta\<close> and
  the index markers).\<close>

definition spec_name_chars :: "char set" where
  "spec_name_chars = set ''abcdefghijklmnopqrstuvwxyz0123456789_-''"

definition spec_section_name_ok :: "string \<Rightarrow> bool" where
  "spec_section_name_ok n =
     (n \<noteq> [] \<and> set n \<subseteq> spec_name_chars \<and>
      1 \<le> length n \<and> length n \<le> 64 \<and>
      n \<notin> {''meta'', ''index'', ''index-trailing''})"

section \<open>The format engine, from the specification\<close>

text \<open>
  The escape codec and the checksum live in the parser and serializer modules, which
  are not among the source files: the conformance tests call them and the extension
  imports them. They are modelled here from the specification.
\<close>

subsection \<open>Escape codec\<close>

text \<open>Modelled from the spec: the two characters the codec works with; the
  serializer that would name them is not among the source files.\<close>

definition backslash :: char where
  "backslash = CHR 0x5C"

definition newline :: char where
  "newline = CHR 0x0A"

text \<open>Modelled from the spec: the marker prefixes (section marker, magic line, EOF
  marker). The specification names the three kinds; the literals are the ones the
  hover provider and the conformance tests show. The codec below takes the list of
  prefixes as a parameter, so nothing depends on the literals.\<close>

definition PFM_MARKERS :: "string list" where
  "PFM_MARKERS = [''#@'', ''#!PFM'', ''#!END'']"

text \<open>Modelled from the spec: "a line beginning with" a prefix; the serializer is
  not among the source files.\<close>

definition startsWith :: "string \<Rightarrow> string \<Rightarrow> bool" where
  "startsWith line p = (take (length p) line = p)"

text \<open>Modelled from the spec: "a line already beginning with one or more backslashes
  followed eventually by one of those prefixes", with the line that begins with a
  prefix as the case of no backslash; the serializer is not among the source
  files.\<close>

definition hasMarkerAfterBackslashes :: "string list \<Rightarrow> string \<Rightarrow> bool" where
  "hasMarkerAfterBackslashes markers line =
     list_ex (startsWith (dropWhile (\<lambda>c. c = backslash) line)) markers"

text \<open>Modelled from the spec: escape of one line (the serializer is not among the
  source files). "Any physical line beginning with [a marker prefix] must be escaped by
  prepending exactly one backslash; a line already beginning with one or more
  backslashes followed eventually by one of those prefixes gains exactly one
  additional backslash."\<close>

definition escape :: "string list \<Rightarrow> string \<Rightarrow> string" where
  "escape markers line =
     (if hasMarkerAfterBackslashes markers line then backslash # line else line)"

text \<open>Modelled from the spec: unescape of one line (the parser is not among the
  source files). "Unescaping strips exactly one leading backslash from any line that
  begins with a backslash directly followed by a marker prefix (with or without
  further backslashes)."\<close>

definition unescape :: "string list \<Rightarrow> string \<Rightarrow> string" where
  "unescape markers line =
     (case line of
        [] \<Rightarrow> line
      | c # rest \<Rightarrow>
          if c = backslash \<and> hasMarkerAfterBackslashes markers rest then rest else line)"

text \<open>Modelled from the spec: the physical lines of a content, cut at every newline
  (an empty content is one empty line; a final newline leaves a last empty line); the
  serializer is not among the source files.\<close>

fun split_lines :: "string \<Rightarrow> string list" where
  "split_lines [] = [[]]"
| "split_lines (c # cs) =
     (if c = newline then [] # split_lines cs
      else (case split_lines cs of [] \<Rightarrow> [[c]] | l # ls \<Rightarrow> (c # l) # ls))"

text \<open>Modelled from the spec: the lines put together again, a newline between two
  lines; the serializer is not among the source files.\<close>

fun join_lines :: "string list \<Rightarrow> string" where
  "join_lines [] = []"
| "join_lines [l] = l"
| "join_lines (l # ls) = l @ newline # join_lines ls"

text \<open>Modelled from the spec: escape of a whole section content, line by line (the
  escape is a "line-level transform"); the serializer is not among the source
  files.\<close>

definition escape_content :: "string list \<Rightarrow> string \<Rightarrow> string" where
  "escape_content markers c = join_lines (map (escape markers) (split_lines c))"

text \<open>Modelled from the spec: unescape of a whole section body, line by line; the
  parser is not among the source files.\<close>

definition unescape_content :: "string list \<Rightarrow> string \<Rightarrow> string" where
  "unescape_content markers c = join_lines (map (unescape markers) (split_lines c))"

subsection \<open>Checksum\<close>

text \<open>Modelled from the spec: the checksum (\<^verbatim>\<open>computeChecksum\<close> of the parser
  modules, which are not among the source files; the extension and the conformance
  tests hand it the sections of a document and nothing else). "A collision-resistant
  hash over the ordered concatenation of section contents only (excludes meta and
  names)." The hash function itself is a parameter.\<close>

definition sections_checksum :: "(string \<Rightarrow> 'digest) \<Rightarrow> PFMSection list \<Rightarrow> 'digest" where
  "sections_checksum hash ss = hash (concat (map content ss))"

text \<open>Modelled from the spec: the checksum of a document, \<^verbatim>\<open>checksum(Document) -> digest\<close>
  of the specification's interface, which is that of its sections; the module that
  defines it is not among the source files.\<close>

definition checksum :: "(string \<Rightarrow> 'digest) \<Rightarrow> 'meta PFMDocument \<Rightarrow> 'digest" where
  "checksum hash d = sections_checksum hash (sections d)"

subsection \<open>Grammar and limits\<close>

text \<open>Modelled from the spec: the document of the format engine, whose meta is an
  "ordered mapping, string key to string value": an association list. The engine's own
  type declarations are not among the source files.\<close>

type_synonym Document = "(string \<times> string) list PFMDocument"

text \<open>Modelled from the spec: the magic-line prefix of the required first line
  \<^verbatim>\<open><prefix><version>[:STREAM]\<close>; the grammar module is not among the source files,
  the literal is the one the conformance tests and the hover provider show.\<close>

definition MAGIC_PREFIX :: string where
  "MAGIC_PREFIX = ''#!PFM/''"

text \<open>Modelled from the spec: the optional stream flag of the magic line; the grammar
  module is not among the source files, the literal is the one the hover provider
  describes.\<close>

definition STREAM_FLAG :: string where
  "STREAM_FLAG = '':STREAM''"

text \<open>Modelled from the spec: the section-header prefix; the grammar module is not
  among the source files, the literal is the one the hover provider matches.\<close>

definition SECTION_PREFIX :: string where
  "SECTION_PREFIX = ''#@''"

text \<open>Modelled from the spec: the EOF-marker prefix; the grammar module is not among
  the source files, the literal is the one the hover provider matches.\<close>

definition EOF_PREFIX :: string where
  "EOF_PREFIX = ''#!END''"

text \<open>Modelled from the spec: the fixed supported-version set; the grammar module is
  not among the source files, the one version is the one convert.ts accepts.\<close>

definition SUPPORTED_FORMAT_VERSIONS :: "string list" where
  "SUPPORTED_FORMAT_VERSIONS = [''1.0'']"

text \<open>Modelled from the spec: the section-count ceiling, "len(sections) \<le> 10,000"; the
  grammar module is not among the source files.\<close>

definition MAX_SECTIONS :: nat where
  "MAX_SECTIONS = 10000"

text \<open>Modelled from the spec: the meta-count ceiling, "len(meta) \<le> 100"; the grammar
  module is not among the source files.\<close>

definition MAX_META_FIELDS :: nat where
  "MAX_META_FIELDS = 100"

text \<open>Modelled from the spec: the control characters, "0x00-0x1F, 0x7F"; the grammar
  module is not among the source files.\<close>

definition is_control :: "char \<Rightarrow> bool" where
  "is_control c = ((of_char c :: nat) \<le> 31 \<or> (of_char c :: nat) = 127)"

text \<open>Modelled from the spec: a meta value "stripped of control characters"; the
  serializer and the parser are not among the source files.\<close>

definition strip_control :: "string \<Rightarrow> string" where
  "strip_control v = filter (\<lambda>c. \<not> is_control c) v"

text \<open>Modelled from the spec: "the identifier charset", the characters of the
  specification's identifiers \<^verbatim>\<open>[a-z0-9_-]+\<close>; the grammar module is not among the
  source files.\<close>

definition identifier_char :: "char \<Rightarrow> bool" where
  "identifier_char c = (c \<in> spec_name_chars)"

text \<open>Modelled from the spec: a meta key "restricted to the identifier charset", the
  other characters left out; the serializer is not among the source files.\<close>

definition restrict_key :: "string \<Rightarrow> string" where
  "restrict_key k = filter identifier_char k"

subsection \<open>Writer\<close>

text \<open>Modelled from the spec: line 1 of the layout, "magic marker + format version,
  optional stream flag"; the serializer is not among the source files.\<close>

definition magic_line :: "Document \<Rightarrow> string" where
  "magic_line d = MAGIC_PREFIX @ formatVersion d @ (if isStream d then STREAM_FLAG else [])"

text \<open>Modelled from the spec: a line of the meta block, "one line per field,
  \<^verbatim>\<open>key: value\<close>", "with keys restricted to the identifier charset and values
  stripped of control characters"; the serializer is not among the source files.\<close>

definition meta_line :: "string \<times> string \<Rightarrow> string" where
  "meta_line field = restrict_key (fst field) @ '': '' @ strip_control (snd field)"

text \<open>Modelled from the spec: a section on the wire, "one header line
  (\<^verbatim>\<open><marker><name>\<close>) followed by escaped content lines"; the serializer is not among
  the source files.\<close>

definition section_lines :: "PFMSection \<Rightarrow> string list" where
  "section_lines s =
     (SECTION_PREFIX @ name s) # map (escape PFM_MARKERS) (split_lines (content s))"

text \<open>Modelled from the spec: one-shot serialization (the serializer is not among the
  source files). "Emits, in order: magic line; meta block; each section as header +
  escaped body", then the terminator, the EOF marker. In stream mode the marker on its
  line carries a byte offset after a colon, and the trailing index comes with it:
  the specification does not fix how either is written, so what follows the colon is
  the parameter \<open>stream_tail\<close>.\<close>

definition serialize :: "(Document \<Rightarrow> string) \<Rightarrow> Document \<Rightarrow> string" where
  "serialize stream_tail d =
     join_lines (magic_line d # map meta_line (meta d) @ concat (map section_lines (sections d)))
     @ newline # EOF_PREFIX @ (if isStream d then '':'' @ stream_tail d else [newline])"

subsection \<open>Parser, full mode\<close>

text \<open>Modelled from the spec: the errors of the parser, of the taxonomy's kinds
  "ResourceError (oversized input)" and "StructuralError (malformed magic line, unknown
  version, invalid section name, limit exceeded)"; the parser is not among the source
  files.\<close>

datatype parse_error = ResourceError | StructuralError

text \<open>Modelled from the spec: the state of the single pass over the lines (the parser
  is not among the source files): the meta fields read so far, the sections completed
  so far, and the section being read, with its name and its body lines still
  escaped.\<close>

record parser_state =
  parsed_meta :: "(string \<times> string) list"
  finished :: "PFMSection list"
  current :: "(string \<times> string list) option"

text \<open>Modelled from the spec: the sections once the one being read is completed,
  "unescaping each body"; the parser is not among the source files.\<close>

definition close_section :: "parser_state \<Rightarrow> PFMSection list" where
  "close_section st =
     (case current st of
        None \<Rightarrow> finished st
      | Some (n, body) \<Rightarrow>
          finished st @ [\<lparr>name = n, content = join_lines (map (unescape PFM_MARKERS) body)\<rparr>])"

text \<open>Modelled from the spec: a line of the meta block read back, \<^verbatim>\<open>key: value\<close> with
  the key in the identifier charset, "sanitizing" the value; the parser is not among
  the source files.\<close>

definition parse_meta_line :: "string \<Rightarrow> (string \<times> string) option" where
  "parse_meta_line l =
     (let k = takeWhile identifier_char l; rest = dropWhile identifier_char l
      in if k \<noteq> [] \<and> startsWith rest '': '' then Some (k, strip_control (drop 2 rest))
         else None)"

text \<open>Modelled from the spec: the pass over the lines after the magic line (the parser
  is not among the source files). "Consume the meta block, sanitizing each field while
  enforcing the meta-count ceiling; consume subsequent section headers and escaped
  bodies, enforcing the section-count and name-validation rules per section; stop at
  the EOF marker. Fails with a structural error (not a partial document) on any
  violated invariant." A key read twice and a text without an EOF marker are taken as
  violated invariants.\<close>

fun parse_lines :: "parser_state \<Rightarrow> string list \<Rightarrow> parse_error + parser_state" where
  "parse_lines st [] = Inl StructuralError"
| "parse_lines st (l # ls) =
     (if startsWith l EOF_PREFIX then Inr st
      else if startsWith l SECTION_PREFIX then
        (let n = drop (length SECTION_PREFIX) l; closed = close_section st
         in if \<not> spec_section_name_ok n \<or> length closed \<ge> MAX_SECTIONS
            then Inl StructuralError
            else parse_lines (st\<lparr>finished := closed, current := Some (n, [])\<rparr>) ls)
      else
        (case current st of
           Some (n, body) \<Rightarrow> parse_lines (st\<lparr>current := Some (n, body @ [l])\<rparr>) ls
         | None \<Rightarrow>
             (case parse_meta_line l of
                None \<Rightarrow> Inl StructuralError
              | Some (k, v) \<Rightarrow>
                  if k \<in> fst ` set (parsed_meta st) \<or> length (parsed_meta st) \<ge> MAX_META_FIELDS
                  then Inl StructuralError
                  else parse_lines (st\<lparr>parsed_meta := parsed_meta st @ [(k, v)]\<rparr>) ls)))"

text \<open>Modelled from the spec: "a line ending with" a flag, for the magic line; the
  parser is not among the source files.\<close>

definition endsWith :: "string \<Rightarrow> string \<Rightarrow> bool" where
  "endsWith line p = (length p \<le> length line \<and> drop (length line - length p) line = p)"

text \<open>Modelled from the spec: "verify the magic line and extract formatVersion", with
  the stream flag; the parser is not among the source files.\<close>

definition parse_magic :: "string \<Rightarrow> (string \<times> bool) option" where
  "parse_magic l =
     (if \<not> startsWith l MAGIC_PREFIX then None
      else let v = drop (length MAGIC_PREFIX) l
           in if endsWith v STREAM_FLAG
              then Some (take (length v - length STREAM_FLAG) v, True)
              else Some (v, False))"

text \<open>Modelled from the spec: the full parse (the parser is not among the source
  files). "Validate total size against the ceiling before decoding; verify the magic
  line and extract/validate formatVersion; consume the meta block; consume subsequent
  section headers and escaped bodies; stop at the EOF marker." The ceiling is
  "configured": the parameter \<open>max_file_size\<close>.\<close>

definition parse :: "nat \<Rightarrow> string \<Rightarrow> parse_error + Document" where
  "parse max_file_size text =
     (if length text > max_file_size then Inl ResourceError
      else (case split_lines text of
              [] \<Rightarrow> Inl StructuralError
            | first # rest \<Rightarrow>
                (case parse_magic first of
                   None \<Rightarrow> Inl StructuralError
                 | Some (version, stream) \<Rightarrow>
                     if version \<notin> set SUPPORTED_FORMAT_VERSIONS then Inl StructuralError
                     else (case parse_lines \<lparr>parsed_meta = [], finished = [], current = None\<rparr> rest of
                             Inl e \<Rightarrow> Inl e
                           | Inr st \<Rightarrow>
                               Inr \<lparr>formatVersion = version, isStream = stream,
                                    meta = parsed_meta st, sections = close_section st\<rparr>))))"

subsection \<open>The section headers of a text\<close>

text \<open>The names that the section-header lines of a text announce, in order, up to the
  EOF marker: the lines after the magic line that begin with the section-header prefix.
  A parse that omits nothing returns one section for each of them.\<close>

definition section_headers :: "string list \<Rightarrow> string list" where
  "section_headers ls =
     map (drop (length SECTION_PREFIX))
       (filter (\<lambda>l. startsWith l SECTION_PREFIX)
          (takeWhile (\<lambda>l. \<not> startsWith l EOF_PREFIX) ls))"

subsection \<open>Valid documents\<close>

text \<open>Modelled from the spec: a field of meta as a valid document holds it (the
  engine's validators are not among the source files): the key is an identifier, so
  the writer's restriction leaves it as it is, and the value is free of control
  characters ("each meta value, after stripping control characters, is stored
  verbatim").\<close>

definition field_ok :: "string \<times> string \<Rightarrow> bool" where
  "field_ok field =
     (fst field \<noteq> [] \<and> restrict_key (fst field) = fst field \<and>
      strip_control (snd field) = snd field)"

text \<open>Modelled from the spec: a valid document (the engine's validators are not among
  the source files). The format version belongs to the supported set; "len(sections)
  \<le> 10,000; len(meta) \<le> 100"; meta is a mapping, each key once; every field is as
  above; every section name is valid; "total serialized size \<le> a configured
  ceiling".\<close>

definition valid_document :: "nat \<Rightarrow> (Document \<Rightarrow> string) \<Rightarrow> Document \<Rightarrow> bool" where
  "valid_document max_file_size stream_tail d =
     (formatVersion d \<in> set SUPPORTED_FORMAT_VERSIONS \<and>
      length (sections d) \<le> MAX_SECTIONS \<and>
      length (meta d) \<le> MAX_META_FIELDS \<and>
      distinct (map fst (meta d)) \<and>
      list_all field_ok (meta d) \<and>
      list_all (\<lambda>s. spec_section_name_ok (name s)) (sections d) \<and>
      length (serialize stream_tail d) \<le> max_file_size)"

section \<open>Theorems\<close>

subsection \<open>timingSafeEqual: equality, in constant time\<close>

lemma ucast_16_32_inj: "(ucast x :: 32 word) = ucast y \<longleftrightarrow> x = y" for x y :: "16 word"
proof
  assume eq: "(ucast x :: 32 word) = ucast y"
  have narrow: "(ucast (ucast w :: 32 word) :: 16 word) = w" for w :: "16 word"
    by (rule bit_word_eqI) (simp add: bit_ucast_iff)
  from eq have "(ucast (ucast x :: 32 word) :: 16 word) = ucast (ucast y :: 32 word)"
    by simp
  then show "x = y" by (simp only: narrow)
qed simp

lemma word_xor_eq_0_iff: "(x XOR y = 0) = (x = y)" for x y :: "'a::len word"
  by (metis word_bw_same(3) xor.assoc xor.right_neutral xor_self_eq)

lemma charCodeAt_or_0_eq_iff:
  "i < length a \<Longrightarrow> i < length b \<Longrightarrow>
   (charCodeAt_or_0 a i = charCodeAt_or_0 b i) = (a ! i = b ! i)"
  unfolding charCodeAt_or_0_def by (simp add: ucast_16_32_inj)

text \<open>The accumulator is zero at exit exactly when it was zero at entry and no index
  of the remaining range differs.\<close>

lemma timingSafeEqual_loop_result:
  "fst (timingSafeEqual_loop a b len i r seen) = 0 \<longleftrightarrow>
     r = 0 \<and> (\<forall>j. i \<le> j \<and> j < len \<longrightarrow> charCodeAt_or_0 a j = charCodeAt_or_0 b j)"
proof (induction a b len i r seen rule: timingSafeEqual_loop.induct)
  case (1 a b len i r seen)
  show ?case
  proof (cases "i < len")
    case True
    have "fst (timingSafeEqual_loop a b len i r seen) =
          fst (timingSafeEqual_loop a b len (i + 1)
                 (r OR (charCodeAt_or_0 a i XOR charCodeAt_or_0 b i))
                 (seen @ [Branch True, CharCodeAt_a i, CharCodeAt_b i]))"
      using True by (subst timingSafeEqual_loop.simps) simp
    also have "\<dots> = 0 \<longleftrightarrow>
         (r OR (charCodeAt_or_0 a i XOR charCodeAt_or_0 b i)) = 0 \<and>
         (\<forall>j. i + 1 \<le> j \<and> j < len \<longrightarrow> charCodeAt_or_0 a j = charCodeAt_or_0 b j)"
      using 1 True by simp
    also have "\<dots> \<longleftrightarrow>
         r = 0 \<and> (\<forall>j. i \<le> j \<and> j < len \<longrightarrow> charCodeAt_or_0 a j = charCodeAt_or_0 b j)"
    proof -
      have first_or_later: "i \<le> j \<longleftrightarrow> j = i \<or> i + 1 \<le> j" for j by arith
      show ?thesis
        using True by (auto simp: or_eq_0_iff word_xor_eq_0_iff first_or_later)
    qed
    finally show ?thesis .
  next
    case False
    then show ?thesis by (subst timingSafeEqual_loop.simps) auto
  qed
qed


lemma timingSafeEqual_result: "fst (timingSafeEqual a b) \<longleftrightarrow> a = b"
proof (cases "length a = length b")
  case True
  then show ?thesis
    by (auto simp: timingSafeEqual_def Let_def split_beta timingSafeEqual_loop_result
          charCodeAt_or_0_eq_iff list_eq_iff_nth_eq)
next
  case False
  then show ?thesis
    by (auto simp: timingSafeEqual_def Let_def split_beta timingSafeEqual_loop_result)
qed




subsection \<open>Validation without a stored checksum\<close>

text \<open>
  Claim C7. When the parsed document's meta has no checksum field, the validation
  command never reports the document as valid: it shows no information message at
  all, and for a PFM editor whose text parses it shows the warning that no checksum
  was found.
\<close>

theorem validateChecksum_fails_closed:
  assumes "\<And>editor doc. activeTextEditor = Some editor \<Longrightarrow>
             parsePFM (getText editor) = Some doc \<Longrightarrow>
             ParsedPFM.meta doc ''checksum'' = None"
  shows "validateChecksum parsePFM computeChecksum activeTextEditor
           \<noteq> Some (showInformationMessage text) \<and>
         (\<forall>editor doc. activeTextEditor = Some editor \<and> languageId editor = ''pfm'' \<and>
              parsePFM (getText editor) = Some doc \<longrightarrow>
            validateChecksum parsePFM computeChecksum activeTextEditor =
              Some (showWarningMessage ''No checksum found in metadata.''))"
  using assms
  by (auto simp: validateChecksum_def split: option.splits)

theorem validateChecksum_fails_closed_witness:
  "validateChecksum
     (\<lambda>t. Some \<lparr>ParsedPFM.meta = Map.empty, ParsedPFM.sections = [''body'']\<rparr>)
     (\<lambda>s. Some [0x61, 0x62])
     (Some \<lparr>languageId = ''pfm'', getText = ''#!PFM/1.0''\<rparr>)
   = Some (showWarningMessage ''No checksum found in metadata.'')"
proof -
  have "validateChecksum
          (\<lambda>t. Some \<lparr>ParsedPFM.meta = Map.empty, ParsedPFM.sections = [''body'']\<rparr>)
          (\<lambda>s. Some [0x61, 0x62])
          (Some \<lparr>languageId = ''pfm'', getText = ''#!PFM/1.0''\<rparr>)
        \<noteq> Some (showInformationMessage ''PFM Checksum: VALID'') \<and>
        (\<forall>editor doc. Some \<lparr>languageId = ''pfm'', getText = ''#!PFM/1.0''\<rparr> = Some editor \<and>
             languageId editor = ''pfm'' \<and>
             (\<lambda>t. Some \<lparr>ParsedPFM.meta = Map.empty, ParsedPFM.sections = [''body'']\<rparr>) (getText editor) = Some doc \<longrightarrow>
           validateChecksum
             (\<lambda>t. Some \<lparr>ParsedPFM.meta = Map.empty, ParsedPFM.sections = [''body'']\<rparr>)
             (\<lambda>s. Some [0x61, 0x62])
             (Some \<lparr>languageId = ''pfm'', getText = ''#!PFM/1.0''\<rparr>)
           = Some (showWarningMessage ''No checksum found in metadata.''))"
    by (rule validateChecksum_fails_closed) auto
  then show ?thesis by simp
qed

subsection \<open>The JSON importer: auxiliary facts\<close>



lemma fold_safeMeta_step:
  "distinct (map fst es) \<Longrightarrow>
   fold safeMeta_step es m k =
     (if k \<in> FORBIDDEN_KEYS then m k
      else (case map_of es k of Some (JStr v) \<Rightarrow> Some v | _ \<Rightarrow> m k))"
proof (induction es arbitrary: m)
  case Nil
  then show ?case by simp
next
  case (Cons e es)
  obtain key val where e: "e = (key, val)" by (cases e)
  from Cons.prems e have notin: "key \<notin> fst ` set es" and dist: "distinct (map fst es)"
    by auto
  have none: "map_of es key = None" using notin by (simp add: map_of_eq_None_iff)
  show ?case
  proof (cases "k = key")
    case True
    then show ?thesis
      using Cons.IH [OF dist, of "safeMeta_step e m"] e none
      by (auto simp: safeMeta_step_def split: json.splits)
  next
    case False
    then show ?thesis
      using Cons.IH [OF dist, of "safeMeta_step e m"] e
      by (auto simp: safeMeta_step_def split: json.splits option.splits)
  qed
qed

lemma safeMeta_of_lookup:
  "safeMeta_of rawMeta k =
     (if k \<in> FORBIDDEN_KEYS then None
      else (case rawMeta of
              Some (JObj props) \<Rightarrow> (case map_of props k of Some (JStr v) \<Rightarrow> Some v | _ \<Rightarrow> None)
            | _ \<Rightarrow> None))"
  by (auto simp: safeMeta_of_def Object_entries_def fold_safeMeta_step AList.map_of_clearjunk
      split: option.splits json.splits)



lemma lower_case_letters: "map char_of [97..<Suc 122] = ''abcdefghijklmnopqrstuvwxyz''"
  by code_simp

lemma decimal_digits: "map char_of [48..<Suc 57] = ''0123456789''"
  by code_simp

lemma char_code_range:
  assumes "hi < 256"
  shows "(lo \<le> (of_char c :: nat) \<and> (of_char c :: nat) \<le> hi) \<longleftrightarrow>
         c \<in> set (map char_of [lo..<Suc hi])"
proof
  assume "lo \<le> (of_char c :: nat) \<and> (of_char c :: nat) \<le> hi"
  then have "(of_char c :: nat) \<in> set [lo..<Suc hi]" by auto
  then have "char_of (of_char c :: nat) \<in> char_of ` set [lo..<Suc hi]" by (rule imageI)
  then show "c \<in> set (map char_of [lo..<Suc hi])" by simp
next
  assume "c \<in> set (map char_of [lo..<Suc hi])"
  then obtain n where n: "lo \<le> n" "n \<le> hi" and c: "c = char_of n" by auto
  from n assms have "(of_char c :: nat) = n" unfolding c by (simp add: of_char_of)
  with n show "lo \<le> (of_char c :: nat) \<and> (of_char c :: nat) \<le> hi" by simp
qed

lemma VALID_NAME_class_iff: "VALID_NAME_class c \<longleftrightarrow> c \<in> spec_name_chars"
proof -
  have "VALID_NAME_class c \<longleftrightarrow>
          c \<in> set (map char_of [97..<Suc 122]) \<or> c \<in> set (map char_of [48..<Suc 57]) \<or>
          c = CHR ''_'' \<or> c = CHR ''-''"
  proof -
    have letters: "(97 \<le> (of_char c :: nat) \<and> (of_char c :: nat) \<le> 122) \<longleftrightarrow>
                   c \<in> set (map char_of [97..<Suc 122])"
      by (rule char_code_range) simp
    have digits: "(48 \<le> (of_char c :: nat) \<and> (of_char c :: nat) \<le> 57) \<longleftrightarrow>
                  c \<in> set (map char_of [48..<Suc 57])"
      by (rule char_code_range) simp
    show ?thesis unfolding VALID_NAME_class_def by (simp only: letters digits)
  qed
  also have "\<dots> \<longleftrightarrow> c \<in> spec_name_chars"
  proof -
    have split: "c \<in> set (A @ B @ [x, y]) \<longleftrightarrow> c \<in> set A \<or> c \<in> set B \<or> c = x \<or> c = y"
      for A B :: string and x y
      by auto
    have whole: "spec_name_chars =
        set (map char_of [97..<Suc 122] @ map char_of [48..<Suc 57] @ [CHR ''_'', CHR ''-''])"
      unfolding spec_name_chars_def
      by (simp only: lower_case_letters decimal_digits append.simps)
    show ?thesis unfolding whole by (rule split [symmetric])
  qed
  finally show ?thesis .
qed

lemma VALID_NAME_test_iff: "VALID_NAME_test s \<longleftrightarrow> s \<noteq> [] \<and> set s \<subseteq> spec_name_chars"
  unfolding VALID_NAME_test_def
  by (cases s) (auto simp: VALID_NAME_class_iff list_all_iff)

lemma name_filter_iff: "name_filter s \<longleftrightarrow> spec_section_name_ok (name s)"
  unfolding name_filter_def spec_section_name_ok_def RESERVED_NAMES_def VALID_NAME_test_iff
  by (cases "name s") auto

lemma section_copy: "\<lparr>name = name s, content = content s\<rparr> = (s :: PFMSection)"
  by simp

lemma safeSections_of_eq:
  "safeSections_of raw = filter name_filter (List.map_filter as_section raw)"
  unfolding safeSections_of_def by (simp add: section_copy)

subsection \<open>Section names\<close>

text \<open>
  Claim C6. The importer accepts a section name exactly when it matches
  \<^verbatim>\<open>[a-z0-9_-]+\<close>, is 1 to 64 characters long and is not reserved: importing an export
  with one section keeps the section when its name satisfies the rule of the
  specification and drops it otherwise. A valid name of 64 characters is accepted, one
  of 65 characters is rejected, and \<^verbatim>\<open>meta\<close> is rejected as reserved.
\<close>

theorem section_name_accepted_iff:
  "fromJSON stringify now
     (Some (JObj [(''sections'', JArr [JObj [(''name'', JStr n), (''content'', JStr c)]])]))
     = Inr \<lparr>formatVersion = ''1.0'', isStream = False, meta = Map.empty,
            sections = (if spec_section_name_ok n then [\<lparr>name = n, content = c\<rparr>] else [])\<rparr>
   \<and> (name_filter s \<longleftrightarrow> spec_section_name_ok (name s))
   \<and> name_filter \<lparr>name = replicate 64 (CHR ''a''), content = c\<rparr>
   \<and> \<not> name_filter \<lparr>name = replicate 65 (CHR ''a''), content = c\<rparr>
   \<and> \<not> name_filter \<lparr>name = ''meta'', content = c\<rparr>"
proof (intro conjI)
  show "fromJSON stringify now
     (Some (JObj [(''sections'', JArr [JObj [(''name'', JStr n), (''content'', JStr c)]])]))
     = Inr \<lparr>formatVersion = ''1.0'', isStream = False, meta = Map.empty,
            sections = (if spec_section_name_ok n then [\<lparr>name = n, content = c\<rparr>] else [])\<rparr>"
    by (simp add: fromJSON_def is_pfm_export_def property_def safeMeta_of_def rawSections_of_def
        safeSections_of_eq as_section_def name_filter_iff)
  show "name_filter s \<longleftrightarrow> spec_section_name_ok (name s)" by (rule name_filter_iff)
  have len: "replicate k (CHR ''a'') \<noteq> t" if "length t \<noteq> k" for k t
    using that by auto
  show "name_filter \<lparr>name = replicate 64 (CHR ''a''), content = c\<rparr>"
    by (simp add: name_filter_iff spec_section_name_ok_def spec_name_chars_def len)
  show "\<not> name_filter \<lparr>name = replicate 65 (CHR ''a''), content = c\<rparr>"
    by (simp add: name_filter_iff spec_section_name_ok_def)
  show "\<not> name_filter \<lparr>name = ''meta'', content = c\<rparr>"
    by (simp add: name_filter_iff spec_section_name_ok_def)
qed

theorem section_name_accepted_iff_witness:
  "fromJSON (\<lambda>data. Some []) ''2026-01-01T00:00:00Z''
     (Some (JObj [(''sections'', JArr [JObj [(''name'', JStr ''chain-of_thought9''),
                                             (''content'', JStr ''step 1'')]])]))
     = Inr \<lparr>formatVersion = ''1.0'', isStream = False, meta = Map.empty,
            sections = [\<lparr>name = ''chain-of_thought9'', content = ''step 1''\<rparr>]\<rparr> \<and>
   fromJSON (\<lambda>data. Some []) ''2026-01-01T00:00:00Z''
     (Some (JObj [(''sections'', JArr [JObj [(''name'', JStr ''Chain''),
                                             (''content'', JStr ''step 1'')]])]))
     = Inr \<lparr>formatVersion = ''1.0'', isStream = False, meta = Map.empty, sections = []\<rparr>"
proof -
  have yes: "spec_section_name_ok ''chain-of_thought9''"
    by (simp add: spec_section_name_ok_def spec_name_chars_def)
  have no: "\<not> spec_section_name_ok ''Chain''"
    by (simp add: spec_section_name_ok_def spec_name_chars_def)
  from section_name_accepted_iff
         [of "\<lambda>data. Some []" "''2026-01-01T00:00:00Z''" "''chain-of_thought9''" "''step 1''"]
       section_name_accepted_iff
         [of "\<lambda>data. Some []" "''2026-01-01T00:00:00Z''" "''Chain''" "''step 1''"]
       yes no
  show ?thesis by simp
qed

subsection \<open>Sanitised meta\<close>

text \<open>
  Claim C10. In every document \<open>fromJSON\<close> returns, meta has none of the keys
  \<^verbatim>\<open>__proto__\<close>, \<^verbatim>\<open>constructor\<close> and \<^verbatim>\<open>prototype\<close>, and every value
  stored in it is a string: for a PFM export it is the string the input's meta had
  under that key, unchanged (a value that is not a string is never stored), and for
  wrapped raw JSON it is one of the two strings the importer writes itself.
\<close>

theorem fromJSON_meta_sanitized:
  assumes "fromJSON stringify now parsed = Inr d"
  shows "meta d ''__proto__'' = None \<and> meta d ''constructor'' = None \<and>
         meta d ''prototype'' = None \<and>
         (\<forall>key v. meta d key = Some v \<longrightarrow>
            (\<exists>data. parsed = Some data \<and>
               (if is_pfm_export data
                then (\<exists>rawMeta. property data ''meta'' = Some rawMeta \<and>
                        property rawMeta key = Some (JStr v))
                else (key = ''agent'' \<and> v = ''json-import'') \<or>
                     (key = ''created'' \<and> v = now))))"
proof -
  from assms obtain data where parsed: "parsed = Some data"
    by (auto simp: fromJSON_def split: option.splits)
  show ?thesis
  proof (cases "is_pfm_export data")
    case False
    with assms parsed have "meta d = [''agent'' \<mapsto> ''json-import'', ''created'' \<mapsto> now]"
      by (auto simp: fromJSON_def split: option.splits)
    with False parsed show ?thesis by (auto split: if_splits)
  next
    case True
    with assms parsed have m: "meta d = safeMeta_of (property data ''meta'')"
      by (auto simp: fromJSON_def Let_def split: if_splits)
    have forb: "meta d k = None" if "k \<in> FORBIDDEN_KEYS" for k
      using that by (simp add: m safeMeta_of_lookup)
    have vals: "\<exists>rawMeta. property data ''meta'' = Some rawMeta \<and>
                  property rawMeta key = Some (JStr v)"
      if "meta d key = Some v" for key v
      using that unfolding m safeMeta_of_lookup
      by (auto simp: property_def split: if_splits option.splits json.splits)
    from forb have "meta d ''__proto__'' = None" "meta d ''constructor'' = None"
      "meta d ''prototype'' = None"
      by (simp_all add: FORBIDDEN_KEYS_def)
    with vals True parsed show ?thesis by auto
  qed
qed

theorem fromJSON_meta_sanitized_witness:
  "fromJSON (\<lambda>data. Some []) ''2026-01-01T00:00:00Z''
     (Some (JObj [(''meta'', JObj [(''__proto__'', JStr ''polluted''),
                                   (''agent'', JStr ''claude''),
                                   (''count'', JNum 3)]),
                  (''sections'', JArr [])]))
     = Inr \<lparr>formatVersion = ''1.0'', isStream = False,
            meta = [''agent'' \<mapsto> ''claude''], sections = []\<rparr> \<and>
   [''agent'' \<mapsto> ''claude''] ''__proto__'' = (None :: string option) \<and>
   property (JObj [(''__proto__'', JStr ''polluted''), (''agent'', JStr ''claude''),
                   (''count'', JNum 3)]) ''agent'' = Some (JStr ''claude'')"
proof -
  let ?rawMeta = "JObj [(''__proto__'', JStr ''polluted''), (''agent'', JStr ''claude''),
                        (''count'', JNum 3)]"
  let ?data = "JObj [(''meta'', ?rawMeta), (''sections'', JArr [])]"
  let ?d = "\<lparr>formatVersion = ''1.0'', isStream = False,
             meta = [''agent'' \<mapsto> ''claude''], sections = []\<rparr>"
  have run: "fromJSON (\<lambda>data. Some []) ''2026-01-01T00:00:00Z'' (Some ?data) = Inr ?d"
    by (simp add: fromJSON_def is_pfm_export_def property_def safeMeta_of_def Object_entries_def
        AList.delete_eq safeMeta_step_def FORBIDDEN_KEYS_def rawSections_of_def
        safeSections_of_eq)
  note facts = fromJSON_meta_sanitized [OF run]
  from facts have none: "meta ?d ''__proto__'' = None" by blast
  have stored: "meta ?d ''agent'' = Some ''claude''" by simp
  from facts stored have "\<exists>data. Some ?data = Some data \<and>
      (if is_pfm_export data
       then (\<exists>rawMeta. property data ''meta'' = Some rawMeta \<and>
               property rawMeta ''agent'' = Some (JStr ''claude''))
       else (''agent'' = ''agent'' \<and> ''claude'' = ''json-import'') \<or>
            (''agent'' = ''created'' \<and> ''claude'' = ''2026-01-01T00:00:00Z''))"
    by blast
  then have "property ?rawMeta ''agent'' = Some (JStr ''claude'')"
    by (simp add: is_pfm_export_def property_def)
  with run none show ?thesis by simp
qed

subsection \<open>The escape codec round trip\<close>

lemma hasMarkerAfterBackslashes_Cons [simp]:
  "hasMarkerAfterBackslashes ms (backslash # l) = hasMarkerAfterBackslashes ms l"
  by (simp add: hasMarkerAfterBackslashes_def)

lemma unescape_escape: "unescape ms (escape ms l) = l"
proof (cases "hasMarkerAfterBackslashes ms l")
  case True
  then show ?thesis by (simp add: escape_def unescape_def)
next
  case False
  then show ?thesis
    by (cases l) (auto simp: escape_def unescape_def)
qed

lemma split_lines_nonempty [simp]: "split_lines c \<noteq> []"
  by (induction c) (auto split: list.splits)

lemma join_lines_Cons_Cons: "join_lines ((c # l) # ls) = c # join_lines (l # ls)"
  by (cases ls) simp_all

lemma join_split: "join_lines (split_lines c) = c"
proof (induction c)
  case Nil
  then show ?case by simp
next
  case (Cons a c)
  obtain l ls where s: "split_lines c = l # ls"
    by (cases "split_lines c") simp_all
  with Cons show ?case by (auto simp: join_lines_Cons_Cons)
qed

lemma split_lines_no_newline: "l \<in> set (split_lines c) \<Longrightarrow> newline \<notin> set l"
proof (induction c arbitrary: l)
  case Nil
  then show ?case by simp
next
  case (Cons a c)
  obtain l' ls where s: "split_lines c = l' # ls"
    by (cases "split_lines c") simp_all
  with Cons show ?case by (auto split: if_splits)
qed

lemma split_lines_single: "newline \<notin> set l \<Longrightarrow> split_lines l = [l]"
  by (induction l) auto

lemma split_lines_append:
  "newline \<notin> set l \<Longrightarrow> split_lines (l @ newline # rest) = l # split_lines rest"
  by (induction l) auto

lemma split_join:
  "ls \<noteq> [] \<Longrightarrow> (\<And>l. l \<in> set ls \<Longrightarrow> newline \<notin> set l) \<Longrightarrow> split_lines (join_lines ls) = ls"
proof (induction ls rule: join_lines.induct)
  case 1
  then show ?case by simp
next
  case (2 l)
  then show ?case by (simp add: split_lines_single)
next
  case (3 l v va)
  then show ?case by (simp add: split_lines_append)
qed

lemma escape_no_newline: "newline \<notin> set l \<Longrightarrow> newline \<notin> set (escape ms l)"
  by (simp add: escape_def backslash_def newline_def)

lemma split_escape_content:
  "split_lines (escape_content ms c) = map (escape ms) (split_lines c)"
  unfolding escape_content_def
  by (rule split_join) (auto simp: escape_no_newline split_lines_no_newline)

lemma unescape_escape_content: "unescape_content ms (escape_content ms c) = c"
  by (simp add: unescape_content_def split_escape_content unescape_escape o_def join_split)

lemma nested_roundtrip:
  "(unescape_content ms ^^ n) ((escape_content ms ^^ n) c) = c"
proof (induction n arbitrary: c)
  case 0
  then show ?case by simp
next
  case (Suc n)
  have "(unescape_content ms ^^ Suc n) ((escape_content ms ^^ Suc n) c)
        = (unescape_content ms ^^ n) (unescape_content ms (escape_content ms ((escape_content ms ^^ n) c)))"
    by (simp add: funpow_swap1)
  also have "\<dots> = (unescape_content ms ^^ n) ((escape_content ms ^^ n) c)"
    by (simp only: unescape_escape_content)
  also have "\<dots> = c" by (rule Suc.IH)
  finally show ?case .
qed

lemma hasMarkerAfterBackslashes_replicate:
  "hasMarkerAfterBackslashes ms (replicate k backslash @ l) = hasMarkerAfterBackslashes ms l"
  by (induction k) simp_all

lemma escape_backslashes_before_marker:
  assumes "hasMarkerAfterBackslashes ms l"
  shows "escape ms (replicate k backslash @ l) = replicate (Suc k) backslash @ l"
  using assms by (simp add: escape_def hasMarkerAfterBackslashes_replicate)

text \<open>
  Claim C1. For every content \<open>c\<close>, unescaping the escape of \<open>c\<close> gives \<open>c\<close>
  back, line by line and for the whole content, and so does unescaping \<open>n\<close> times what
  was escaped \<open>n\<close> times, for every depth \<open>n\<close>. This holds for every list of marker
  prefixes. With the markers of the format, a line of any number \<open>k\<close> of backslashes
  before the section marker, the magic line or the EOF marker is escaped to the same
  line with \<open>k + 1\<close> backslashes, so the round trip is not that of an identity.
\<close>

theorem escape_unescape_roundtrip:
  "unescape markers (escape markers line) = line \<and>
   unescape_content markers (escape_content markers c) = c \<and>
   (unescape_content markers ^^ n) ((escape_content markers ^^ n) c) = c \<and>
   escape PFM_MARKERS (replicate k backslash @ ''#@'' @ rest)
     = replicate (Suc k) backslash @ ''#@'' @ rest \<and>
   escape PFM_MARKERS (replicate k backslash @ ''#!PFM/1.0'')
     = replicate (Suc k) backslash @ ''#!PFM/1.0'' \<and>
   escape PFM_MARKERS (replicate k backslash @ ''#!END'')
     = replicate (Suc k) backslash @ ''#!END''"
proof (intro conjI)
  show "unescape markers (escape markers line) = line" by (rule unescape_escape)
  show "unescape_content markers (escape_content markers c) = c"
    by (rule unescape_escape_content)
  show "(unescape_content markers ^^ n) ((escape_content markers ^^ n) c) = c"
    by (rule nested_roundtrip)
  show "escape PFM_MARKERS (replicate k backslash @ ''#@'' @ rest)
          = replicate (Suc k) backslash @ ''#@'' @ rest"
    by (rule escape_backslashes_before_marker)
       (simp add: hasMarkerAfterBackslashes_def PFM_MARKERS_def startsWith_def backslash_def)
  show "escape PFM_MARKERS (replicate k backslash @ ''#!PFM/1.0'')
          = replicate (Suc k) backslash @ ''#!PFM/1.0''"
    by (rule escape_backslashes_before_marker)
       (simp add: hasMarkerAfterBackslashes_def PFM_MARKERS_def startsWith_def backslash_def)
  show "escape PFM_MARKERS (replicate k backslash @ ''#!END'')
          = replicate (Suc k) backslash @ ''#!END''"
    by (rule escape_backslashes_before_marker)
       (simp add: hasMarkerAfterBackslashes_def PFM_MARKERS_def startsWith_def backslash_def)
qed

theorem escape_unescape_roundtrip_witness:
  "unescape_content PFM_MARKERS
     (escape_content PFM_MARKERS
        (''#!PFM/1.0'' @ [newline] @ [backslash, backslash, backslash] @ ''#@deep'' @ [newline]
         @ ''#!END''))
   = ''#!PFM/1.0'' @ [newline] @ [backslash, backslash, backslash] @ ''#@deep'' @ [newline]
     @ ''#!END'' \<and>
   escape_content PFM_MARKERS
        (''#!PFM/1.0'' @ [newline] @ [backslash, backslash, backslash] @ ''#@deep'' @ [newline]
         @ ''#!END'')
   = [backslash] @ ''#!PFM/1.0'' @ [newline] @ [backslash, backslash, backslash, backslash]
     @ ''#@deep'' @ [newline] @ [backslash] @ ''#!END''"
proof
  show "unescape_content PFM_MARKERS
     (escape_content PFM_MARKERS
        (''#!PFM/1.0'' @ [newline] @ [backslash, backslash, backslash] @ ''#@deep'' @ [newline]
         @ ''#!END''))
   = ''#!PFM/1.0'' @ [newline] @ [backslash, backslash, backslash] @ ''#@deep'' @ [newline]
     @ ''#!END''"
    using escape_unescape_roundtrip [of PFM_MARKERS]
    by blast
  show "escape_content PFM_MARKERS
        (''#!PFM/1.0'' @ [newline] @ [backslash, backslash, backslash] @ ''#@deep'' @ [newline]
         @ ''#!END'')
   = [backslash] @ ''#!PFM/1.0'' @ [newline] @ [backslash, backslash, backslash, backslash]
     @ ''#@deep'' @ [newline] @ [backslash] @ ''#!END''"
    by code_simp
qed

subsection \<open>The scope of the checksum\<close>

text \<open>
  Claim C4. The checksum is computed over the ordered concatenation of the section
  contents only. It is the hash of that concatenation, so two documents whose section
  contents are equal in sequence, or only equal once concatenated, have equal digests,
  and changing only meta, or only the names of the sections, leaves the digest as it
  was; this holds for every hash function. The digest depends on nothing less: under a
  hash without collisions two documents have equal digests only if the concatenations
  of their section contents, in order, are equal. The validation command of the
  extension, which hands \<^verbatim>\<open>doc.sections\<close> to the checksum, reports a document with a
  stored checksum as valid exactly when the stored checksum is the hash of that
  concatenation.
\<close>

theorem checksum_covers_contents_only:
  "checksum hash d = hash (concat (map content (sections d))) \<and>
   (map content (sections d) = map content (sections d') \<longrightarrow>
      checksum hash d = checksum hash d') \<and>
   (concat (map content (sections d)) = concat (map content (sections d')) \<longrightarrow>
      checksum hash d = checksum hash d') \<and>
   (inj hash \<longrightarrow>
      (checksum hash d = checksum hash d' \<longleftrightarrow>
       concat (map content (sections d)) = concat (map content (sections d')))) \<and>
   checksum hash (d\<lparr>meta := m\<rparr>) = checksum hash d \<and>
   checksum hash (d\<lparr>sections := map (\<lambda>s. s\<lparr>name := rename s\<rparr>) (sections d)\<rparr>)
     = checksum hash d \<and>
   (languageId editor = ''pfm'' \<and> ParsedPFM.meta doc ''checksum'' = Some stored \<and>
    stored \<noteq> [] \<longrightarrow>
      validateChecksum (\<lambda>text. Some doc) (\<lambda>ss. Some (sections_checksum digest ss))
        (Some editor)
      = Some (if stored = digest (concat (map content (ParsedPFM.sections doc)))
              then showInformationMessage ''PFM Checksum: VALID''
              else showErrorMessage ''PFM Checksum: INVALID'' stored
                     (digest (concat (map content (ParsedPFM.sections doc))))))"
proof (intro conjI)
  show "checksum hash d = hash (concat (map content (sections d)))"
    by (simp add: checksum_def sections_checksum_def)
  show "map content (sections d) = map content (sections d') \<longrightarrow>
      checksum hash d = checksum hash d'"
    by (simp add: checksum_def sections_checksum_def)
  show "concat (map content (sections d)) = concat (map content (sections d')) \<longrightarrow>
      checksum hash d = checksum hash d'"
    by (simp add: checksum_def sections_checksum_def)
  show "inj hash \<longrightarrow>
      (checksum hash d = checksum hash d' \<longleftrightarrow>
       concat (map content (sections d)) = concat (map content (sections d')))"
    by (simp add: checksum_def sections_checksum_def inj_eq)
  show "checksum hash (d\<lparr>meta := m\<rparr>) = checksum hash d"
    by (simp add: checksum_def)
  show "checksum hash (d\<lparr>sections := map (\<lambda>s. s\<lparr>name := rename s\<rparr>) (sections d)\<rparr>)
     = checksum hash d"
    by (simp add: checksum_def sections_checksum_def o_def)
  show "languageId editor = ''pfm'' \<and> ParsedPFM.meta doc ''checksum'' = Some stored \<and>
    stored \<noteq> [] \<longrightarrow>
      validateChecksum (\<lambda>text. Some doc) (\<lambda>ss. Some (sections_checksum digest ss))
        (Some editor)
      = Some (if stored = digest (concat (map content (ParsedPFM.sections doc)))
              then showInformationMessage ''PFM Checksum: VALID''
              else showErrorMessage ''PFM Checksum: INVALID'' stored
                     (digest (concat (map content (ParsedPFM.sections doc)))))"
    by (auto simp: validateChecksum_def timingSafeEqual_result sections_checksum_def)
qed

theorem checksum_covers_contents_only_witness:
  "checksum (\<lambda>text. text)
     \<lparr>formatVersion = ''1.0'', isStream = False, meta = [(''agent'', ''cli'')],
      sections = [\<lparr>name = ''content'', content = ''hello''\<rparr>,
                  \<lparr>name = ''chain'', content = ''world''\<rparr>]\<rparr>
   = checksum (\<lambda>text. text)
     \<lparr>formatVersion = ''1.0'', isStream = False, meta = [(''agent'', ''editor'')],
      sections = [\<lparr>name = ''first'', content = ''hello''\<rparr>,
                  \<lparr>name = ''second'', content = ''world''\<rparr>]\<rparr> \<and>
   checksum (\<lambda>text. text)
     \<lparr>formatVersion = ''1.0'', isStream = False, meta = [(''agent'', ''cli'')],
      sections = [\<lparr>name = ''content'', content = ''hello''\<rparr>,
                  \<lparr>name = ''chain'', content = ''world''\<rparr>]\<rparr>
   \<noteq> checksum (\<lambda>text. text)
     \<lparr>formatVersion = ''1.0'', isStream = False, meta = [(''agent'', ''cli'')],
      sections = [\<lparr>name = ''chain'', content = ''world''\<rparr>,
                  \<lparr>name = ''content'', content = ''hello''\<rparr>]\<rparr> \<and>
   validateChecksum
     (\<lambda>text. Some \<lparr>ParsedPFM.meta = [''checksum'' \<mapsto> [10]],
                    ParsedPFM.sections = [\<lparr>name = ''content'', content = ''hello''\<rparr>,
                                          \<lparr>name = ''chain'', content = ''world''\<rparr>]\<rparr>)
     (\<lambda>ss. Some (sections_checksum (\<lambda>text. [of_nat (length text)]) ss))
     (Some \<lparr>languageId = ''pfm'', getText = ''#!PFM/1.0''\<rparr>)
   = Some (showInformationMessage ''PFM Checksum: VALID'')"
proof (intro conjI)
  let ?d = "\<lparr>formatVersion = ''1.0'', isStream = False, meta = [(''agent'', ''cli'')],
      sections = [\<lparr>name = ''content'', content = ''hello''\<rparr>,
                  \<lparr>name = ''chain'', content = ''world''\<rparr>]\<rparr>"
  let ?renamed = "\<lparr>formatVersion = ''1.0'', isStream = False, meta = [(''agent'', ''editor'')],
      sections = [\<lparr>name = ''first'', content = ''hello''\<rparr>,
                  \<lparr>name = ''second'', content = ''world''\<rparr>]\<rparr>"
  let ?swapped = "\<lparr>formatVersion = ''1.0'', isStream = False, meta = [(''agent'', ''cli'')],
      sections = [\<lparr>name = ''chain'', content = ''world''\<rparr>,
                  \<lparr>name = ''content'', content = ''hello''\<rparr>]\<rparr>"
  let ?doc = "\<lparr>ParsedPFM.meta = [''checksum'' \<mapsto> [10 :: 16 word]],
                    ParsedPFM.sections = [\<lparr>name = ''content'', content = ''hello''\<rparr>,
                                          \<lparr>name = ''chain'', content = ''world''\<rparr>]\<rparr>"
  let ?editor = "\<lparr>languageId = ''pfm'', getText = ''#!PFM/1.0''\<rparr>"
  have same: "map content (sections ?d) = map content (sections ?renamed)" by simp
  from checksum_covers_contents_only [of "\<lambda>text. text" ?d ?renamed] same
  show "checksum (\<lambda>text. text) ?d = checksum (\<lambda>text. text) ?renamed" by blast
  have inj: "inj (\<lambda>text :: string. text)" by (simp add: inj_def)
  have other: "concat (map content (sections ?d)) \<noteq> concat (map content (sections ?swapped))"
    by simp
  from checksum_covers_contents_only [of "\<lambda>text. text" ?d ?swapped] inj other
  show "checksum (\<lambda>text. text) ?d \<noteq> checksum (\<lambda>text. text) ?swapped" by blast
  have stored: "languageId ?editor = ''pfm'' \<and> ParsedPFM.meta ?doc ''checksum'' = Some [10] \<and>
      [10 :: 16 word] \<noteq> []" by simp
  have digest: "[10 :: 16 word] = [of_nat (length (concat (map content (ParsedPFM.sections ?doc))))]"
    by simp
  from checksum_covers_contents_only
         [where hash = "\<lambda>text. text" and d = ?d and d' = ?d and m = "[]"
            and rename = name and editor = ?editor and doc = ?doc and stored = "[10]"
            and digest = "\<lambda>text. [of_nat (length text)]"] stored digest
  show "validateChecksum (\<lambda>text. Some ?doc)
     (\<lambda>ss. Some (sections_checksum (\<lambda>text. [of_nat (length text)]) ss))
     (Some ?editor)
   = Some (showInformationMessage ''PFM Checksum: VALID'')"
    by simp
qed

subsection \<open>The parse and serialize round trip\<close>

lemma startsWith_append [simp]: "startsWith (p @ l) p"
  by (simp add: startsWith_def)

lemma escape_not_marker:
  assumes "m \<in> set PFM_MARKERS"
  shows "\<not> startsWith (escape PFM_MARKERS l) m"
proof (cases "hasMarkerAfterBackslashes PFM_MARKERS l")
  case True
  then have "escape PFM_MARKERS l = backslash # l" by (simp add: escape_def)
  with assms show ?thesis
    by (auto simp: PFM_MARKERS_def startsWith_def backslash_def)
next
  case False
  then have e: "escape PFM_MARKERS l = l" by (simp add: escape_def)
  show ?thesis
  proof
    assume "startsWith (escape PFM_MARKERS l) m"
    then have sw: "startsWith l m" by (simp add: e)
    from assms have "m \<noteq> []" "hd m = CHR ''#''" by (auto simp: PFM_MARKERS_def)
    with sw have "l \<noteq> []" "hd l = CHR ''#''"
      by (cases l; cases m; auto simp: startsWith_def)+
    then have "dropWhile (\<lambda>c. c = backslash) l = l"
      by (cases l) (auto simp: backslash_def)
    with sw assms have "hasMarkerAfterBackslashes PFM_MARKERS l"
      by (auto simp: hasMarkerAfterBackslashes_def list_ex_iff)
    with False show False by simp
  qed
qed

lemma escape_not_EOF: "\<not> startsWith (escape PFM_MARKERS l) EOF_PREFIX"
  by (rule escape_not_marker) (simp add: PFM_MARKERS_def EOF_PREFIX_def)

lemma escape_not_SECTION: "\<not> startsWith (escape PFM_MARKERS l) SECTION_PREFIX"
  by (rule escape_not_marker) (simp add: PFM_MARKERS_def SECTION_PREFIX_def)

lemma identifier_char_not_special:
  "identifier_char c \<Longrightarrow> c \<noteq> CHR ''#'' \<and> c \<noteq> CHR '':'' \<and> c \<noteq> newline"
  by (auto simp: identifier_char_def spec_name_chars_def newline_def)

lemma strip_control_no_newline: "newline \<notin> set (strip_control v)"
  by (auto simp: strip_control_def is_control_def newline_def)

lemma field_ok_key: "field_ok (k, v) \<Longrightarrow> k \<noteq> [] \<and> list_all identifier_char k"
proof -
  assume ok: "field_ok (k, v)"
  then have "filter identifier_char k = k" by (simp add: field_ok_def restrict_key_def)
  then have "list_all identifier_char k" by (simp add: filter_id_conv list_all_iff)
  with ok show ?thesis by (simp add: field_ok_def)
qed

lemma meta_line_eq: "field_ok (k, v) \<Longrightarrow> meta_line (k, v) = k @ '': '' @ v"
  by (simp add: meta_line_def field_ok_def)

lemma meta_line_not_marker:
  assumes "field_ok (k, v)"
  shows "\<not> startsWith (meta_line (k, v)) EOF_PREFIX" "\<not> startsWith (meta_line (k, v)) SECTION_PREFIX"
proof -
  from field_ok_key [OF assms] obtain c cs where k: "k = c # cs" and c: "identifier_char c"
    by (cases k) auto
  from c have "c \<noteq> CHR ''#''" by (simp add: identifier_char_not_special)
  moreover have "meta_line (k, v) = c # cs @ '': '' @ v"
    using meta_line_eq [OF assms] k by simp
  ultimately show "\<not> startsWith (meta_line (k, v)) EOF_PREFIX"
    "\<not> startsWith (meta_line (k, v)) SECTION_PREFIX"
    by (simp_all add: startsWith_def EOF_PREFIX_def SECTION_PREFIX_def)
qed

lemma parse_meta_line_meta_line:
  assumes "field_ok (k, v)"
  shows "parse_meta_line (meta_line (k, v)) = Some (k, v)"
proof -
  from field_ok_key [OF assms] have k: "k \<noteq> []" "list_all identifier_char k" by simp_all
  have colon: "\<not> identifier_char (CHR '':'')"
    using identifier_char_not_special by blast
  have tw: "takeWhile identifier_char (k @ '': '' @ v) = k"
    using k colon by (simp add: takeWhile_append2 list_all_iff)
  have dw: "dropWhile identifier_char (k @ '': '' @ v) = '': '' @ v"
    using k colon by (simp add: dropWhile_append2 list_all_iff)
  from assms have v: "strip_control v = v" by (simp add: field_ok_def)
  show ?thesis
    unfolding parse_meta_line_def meta_line_eq [OF assms] Let_def tw dw
    using k v by (simp add: startsWith_def)
qed

lemma parse_lines_meta:
  assumes "current st = None"
    and "list_all field_ok kvs"
    and "distinct (map fst (parsed_meta st @ kvs))"
    and "length (parsed_meta st @ kvs) \<le> MAX_META_FIELDS"
  shows "parse_lines st (map meta_line kvs @ rest)
         = parse_lines (st\<lparr>parsed_meta := parsed_meta st @ kvs\<rparr>) rest"
  using assms
proof (induction kvs arbitrary: st)
  case Nil
  then show ?case by simp
next
  case (Cons kv kvs)
  obtain k v where kv: "kv = (k, v)" by (cases kv)
  from Cons.prems kv have ok: "field_ok (k, v)" by simp
  from Cons.prems kv have fresh: "k \<notin> fst ` set (parsed_meta st)" by auto
  from Cons.prems have room: "length (parsed_meta st) < MAX_META_FIELDS" by simp
  let ?st = "st\<lparr>parsed_meta := parsed_meta st @ [(k, v)]\<rparr>"
  have step: "parse_lines st (meta_line (k, v) # map meta_line kvs @ rest)
              = parse_lines ?st (map meta_line kvs @ rest)"
    using meta_line_not_marker [OF ok] parse_meta_line_meta_line [OF ok] fresh room Cons.prems(1)
    by simp
  have "parse_lines ?st (map meta_line kvs @ rest)
        = parse_lines (?st\<lparr>parsed_meta := parsed_meta ?st @ kvs\<rparr>) rest"
    using Cons.prems kv by (intro Cons.IH) simp_all
  with step show ?case by (simp add: kv)
qed

lemma parse_lines_body:
  assumes "current st = Some (n, body)"
  shows "parse_lines st (map (escape PFM_MARKERS) ls @ rest)
         = parse_lines (st\<lparr>current := Some (n, body @ map (escape PFM_MARKERS) ls)\<rparr>) rest"
  using assms
proof (induction ls arbitrary: st body)
  case Nil
  then have "st\<lparr>current := Some (n, body)\<rparr> = st" by (cases st) simp
  then show ?case by simp
next
  case (Cons l ls)
  let ?st = "st\<lparr>current := Some (n, body @ [escape PFM_MARKERS l])\<rparr>"
  have "parse_lines st (escape PFM_MARKERS l # map (escape PFM_MARKERS) ls @ rest)
        = parse_lines ?st (map (escape PFM_MARKERS) ls @ rest)"
    using Cons.prems by (simp add: escape_not_EOF escape_not_SECTION)
  also have "\<dots> = parse_lines
      (?st\<lparr>current := Some (n, (body @ [escape PFM_MARKERS l]) @ map (escape PFM_MARKERS) ls)\<rparr>) rest"
    by (rule Cons.IH) simp
  finally show ?case by simp
qed

lemma section_roundtrip:
  "\<lparr>name = name s, content = join_lines (map (unescape PFM_MARKERS)
        (map (escape PFM_MARKERS) (split_lines (content s))))\<rparr> = (s :: PFMSection)"
  by (simp add: o_def unescape_escape join_split)

lemma parse_lines_section:
  assumes "spec_section_name_ok (name s)"
    and "length (close_section st) < MAX_SECTIONS"
  shows "\<exists>st'. parse_lines st (section_lines s @ rest) = parse_lines st' rest \<and>
               parsed_meta st' = parsed_meta st \<and>
               current st' \<noteq> None \<and>
               close_section st' = close_section st @ [s]"
proof -
  let ?opened = "st\<lparr>finished := close_section st, current := Some (name s, [])\<rparr>"
  let ?body = "map (escape PFM_MARKERS) (split_lines (content s))"
  let ?st' = "?opened\<lparr>current := Some (name s, [] @ ?body)\<rparr>"
  have header: "parse_lines st ((SECTION_PREFIX @ name s) # ?body @ rest)
                = parse_lines ?opened (?body @ rest)"
    using assms by (simp add: Let_def SECTION_PREFIX_def EOF_PREFIX_def startsWith_def)
  have body: "parse_lines ?opened (?body @ rest) = parse_lines ?st' rest"
    by (rule parse_lines_body) simp
  have closed: "close_section ?st' = close_section st @ [s]"
    using section_roundtrip [of s] by (simp add: close_section_def)
  from header body have "parse_lines st (section_lines s @ rest) = parse_lines ?st' rest"
    by (simp add: section_lines_def)
  moreover have "parsed_meta ?st' = parsed_meta st" "current ?st' \<noteq> None" by simp_all
  ultimately show ?thesis using closed by blast
qed

lemma parse_lines_sections:
  assumes "list_all (\<lambda>s. spec_section_name_ok (name s)) ss"
    and "length (close_section st) + length ss \<le> MAX_SECTIONS"
  shows "\<exists>st'. parse_lines st (concat (map section_lines ss) @ rest) = parse_lines st' rest \<and>
               parsed_meta st' = parsed_meta st \<and>
               close_section st' = close_section st @ ss"
  using assms
proof (induction ss arbitrary: st)
  case Nil
  then show ?case by auto
next
  case (Cons s ss)
  from Cons.prems have ok: "spec_section_name_ok (name s)"
    and room: "length (close_section st) < MAX_SECTIONS" by simp_all
  from parse_lines_section [OF ok room, of "concat (map section_lines ss) @ rest"]
  obtain st1 where
    one: "parse_lines st (section_lines s @ concat (map section_lines ss) @ rest)
          = parse_lines st1 (concat (map section_lines ss) @ rest)"
    and meta1: "parsed_meta st1 = parsed_meta st"
    and closed1: "close_section st1 = close_section st @ [s]"
    by blast
  from Cons.prems closed1 have
    "list_all (\<lambda>s. spec_section_name_ok (name s)) ss"
    "length (close_section st1) + length ss \<le> MAX_SECTIONS" by simp_all
  from Cons.IH [OF this] obtain st' where
    more: "parse_lines st1 (concat (map section_lines ss) @ rest) = parse_lines st' rest"
    and meta': "parsed_meta st' = parsed_meta st1"
    and closed': "close_section st' = close_section st1 @ ss"
    by blast
  from one more meta1 meta' closed1 closed' show ?case by auto
qed

lemma split_lines_join_append:
  assumes "ls \<noteq> []" and "\<And>l. l \<in> set ls \<Longrightarrow> newline \<notin> set l"
  shows "split_lines (join_lines ls @ newline # t) = ls @ split_lines t"
  using assms
proof (induction ls rule: join_lines.induct)
  case 1
  then show ?case by simp
next
  case (2 l)
  then show ?case by (simp add: split_lines_append)
next
  case (3 l v va)
  then show ?case by (simp add: split_lines_append)
qed

lemma split_lines_prefix:
  "newline \<notin> set p \<Longrightarrow> \<exists>l ls. split_lines (p @ t) = (p @ l) # ls"
proof (induction p)
  case Nil
  then show ?case by (cases "split_lines t") auto
next
  case (Cons a p)
  then obtain l ls where "split_lines (p @ t) = (p @ l) # ls" by auto
  with Cons.prems show ?case by auto
qed

lemma magic_line_no_newline:
  "formatVersion d = ''1.0'' \<Longrightarrow> newline \<notin> set (magic_line d)"
  by (simp add: magic_line_def MAGIC_PREFIX_def STREAM_FLAG_def newline_def)

lemma meta_line_no_newline: "field_ok kv \<Longrightarrow> newline \<notin> set (meta_line kv)"
proof -
  assume ok: "field_ok kv"
  obtain k v where kv: "kv = (k, v)" by (cases kv)
  from ok kv have "list_all identifier_char k" using field_ok_key by blast
  then have "newline \<notin> set k"
    using identifier_char_not_special by (auto simp: list_all_iff)
  moreover from ok kv have "newline \<notin> set v"
    using strip_control_no_newline [of v] by (simp add: field_ok_def)
  ultimately show ?thesis
    using ok kv by (simp add: meta_line_eq newline_def)
qed

lemma section_lines_no_newline:
  assumes "spec_section_name_ok (name s)" and "l \<in> set (section_lines s)"
  shows "newline \<notin> set l"
proof -
  from assms(1) have "newline \<notin> set (name s)"
    by (auto simp: spec_section_name_ok_def spec_name_chars_def newline_def)
  then have "newline \<notin> set (SECTION_PREFIX @ name s)"
    by (simp add: SECTION_PREFIX_def newline_def)
  with assms(2) show ?thesis
    by (auto simp: section_lines_def escape_no_newline split_lines_no_newline)
qed

lemma parse_magic_magic_line:
  "formatVersion d = ''1.0'' \<Longrightarrow> parse_magic (magic_line d) = Some (''1.0'', isStream d)"
  by (simp add: parse_magic_def magic_line_def MAGIC_PREFIX_def STREAM_FLAG_def
      startsWith_def endsWith_def)


text \<open>
  Claim C2. For every valid document \<open>d\<close>, parsing the serialization of \<open>d\<close> returns
  \<open>d\<close>: the same sections (names and contents, in order), the same meta, the same
  version and stream flag. This holds for every size ceiling the document fits under
  and whatever the writer puts after the EOF marker in stream mode.
\<close>

theorem parse_serialize_roundtrip:
  assumes "valid_document max_file_size stream_tail d"
  shows "parse max_file_size (serialize stream_tail d) = Inr d"
proof -
  from assms have version: "formatVersion d = ''1.0''"
    and count: "length (sections d) \<le> MAX_SECTIONS"
    and mcount: "length (meta d) \<le> MAX_META_FIELDS"
    and keys: "distinct (map fst (meta d))"
    and fields: "list_all field_ok (meta d)"
    and names: "list_all (\<lambda>s. spec_section_name_ok (name s)) (sections d)"
    and size: "length (serialize stream_tail d) \<le> max_file_size"
    by (simp_all add: valid_document_def SUPPORTED_FORMAT_VERSIONS_def)
  let ?metas = "map meta_line (meta d)"
  let ?sects = "concat (map section_lines (sections d))"
  let ?tail = "(if isStream d then '':'' @ stream_tail d else [newline])"
  have no_nl: "newline \<notin> set l" if "l \<in> set (magic_line d # ?metas @ ?sects)" for l
  proof -
    from that consider "l = magic_line d" | "l \<in> set ?metas" | "l \<in> set ?sects" by auto
    then show ?thesis
    proof cases
      case 1
      then show ?thesis using magic_line_no_newline [OF version] by simp
    next
      case 2
      then show ?thesis using fields meta_line_no_newline by (auto simp: list_all_iff)
    next
      case 3
      then show ?thesis using names section_lines_no_newline by (auto simp: list_all_iff)
    qed
  qed
  have "newline \<notin> set EOF_PREFIX" by (simp add: EOF_PREFIX_def newline_def)
  from split_lines_prefix [OF this, of ?tail]
  obtain l0 more where eof: "split_lines (EOF_PREFIX @ ?tail) = (EOF_PREFIX @ l0) # more"
    by blast
  have lines: "split_lines (serialize stream_tail d)
               = magic_line d # ?metas @ ?sects @ (EOF_PREFIX @ l0) # more"
    unfolding serialize_def
    using split_lines_join_append [of "magic_line d # ?metas @ ?sects" "EOF_PREFIX @ ?tail"]
      no_nl eof
    by simp
  let ?init = "\<lparr>parsed_meta = [], finished = [], current = None\<rparr>"
  let ?st1 = "?init\<lparr>parsed_meta := parsed_meta ?init @ meta d\<rparr>"
  have meta_phase: "parse_lines ?init (?metas @ ?sects @ (EOF_PREFIX @ l0) # more)
                    = parse_lines ?st1 (?sects @ (EOF_PREFIX @ l0) # more)"
    by (rule parse_lines_meta) (use fields keys mcount in simp_all)
  have "length (close_section ?st1) + length (sections d) \<le> MAX_SECTIONS"
    using count by (simp add: close_section_def)
  from parse_lines_sections [OF names this, of "(EOF_PREFIX @ l0) # more"]
  obtain st' where
    sect_phase: "parse_lines ?st1 (?sects @ (EOF_PREFIX @ l0) # more)
                 = parse_lines st' ((EOF_PREFIX @ l0) # more)"
    and meta': "parsed_meta st' = meta d"
    and closed': "close_section st' = sections d"
    by (auto simp: close_section_def)
  have stop: "parse_lines st' ((EOF_PREFIX @ l0) # more) = Inr st'" by simp
  have run: "parse_lines ?init (?metas @ ?sects @ (EOF_PREFIX @ l0) # more) = Inr st'"
    using meta_phase sect_phase stop by simp
  show ?thesis
    unfolding parse_def lines
    using size run parse_magic_magic_line [OF version] version meta' closed'
    by (simp add: SUPPORTED_FORMAT_VERSIONS_def)
qed

theorem parse_serialize_roundtrip_witness:
  "parse 4096 (serialize (\<lambda>d. ''0'')
     \<lparr>formatVersion = ''1.0'', isStream = False,
      meta = [(''agent'', ''claude''), (''model'', ''m: 1'')],
      sections = [\<lparr>name = ''content'', content = ''hello'' @ [newline] @ ''#@fake''\<rparr>,
                  \<lparr>name = ''chain'', content = []\<rparr>]\<rparr>)
   = Inr \<lparr>formatVersion = ''1.0'', isStream = False,
      meta = [(''agent'', ''claude''), (''model'', ''m: 1'')],
      sections = [\<lparr>name = ''content'', content = ''hello'' @ [newline] @ ''#@fake''\<rparr>,
                  \<lparr>name = ''chain'', content = []\<rparr>]\<rparr> \<and>
   parse 4096 (serialize (\<lambda>d. ''41'' @ [newline] @ ''log 19 6'' @ [newline])
     \<lparr>formatVersion = ''1.0'', isStream = True,
      meta = [(''id'', ''7'')],
      sections = [\<lparr>name = ''log'', content = ''#!END''\<rparr>]\<rparr>)
   = Inr \<lparr>formatVersion = ''1.0'', isStream = True,
      meta = [(''id'', ''7'')],
      sections = [\<lparr>name = ''log'', content = ''#!END''\<rparr>]\<rparr>"
proof
  show "parse 4096 (serialize (\<lambda>d. ''0'')
     \<lparr>formatVersion = ''1.0'', isStream = False,
      meta = [(''agent'', ''claude''), (''model'', ''m: 1'')],
      sections = [\<lparr>name = ''content'', content = ''hello'' @ [newline] @ ''#@fake''\<rparr>,
                  \<lparr>name = ''chain'', content = []\<rparr>]\<rparr>)
   = Inr \<lparr>formatVersion = ''1.0'', isStream = False,
      meta = [(''agent'', ''claude''), (''model'', ''m: 1'')],
      sections = [\<lparr>name = ''content'', content = ''hello'' @ [newline] @ ''#@fake''\<rparr>,
                  \<lparr>name = ''chain'', content = []\<rparr>]\<rparr>"
    by (rule parse_serialize_roundtrip) code_simp
  show "parse 4096 (serialize (\<lambda>d. ''41'' @ [newline] @ ''log 19 6'' @ [newline])
     \<lparr>formatVersion = ''1.0'', isStream = True,
      meta = [(''id'', ''7'')],
      sections = [\<lparr>name = ''log'', content = ''#!END''\<rparr>]\<rparr>)
   = Inr \<lparr>formatVersion = ''1.0'', isStream = True,
      meta = [(''id'', ''7'')],
      sections = [\<lparr>name = ''log'', content = ''#!END''\<rparr>]\<rparr>"
    by (rule parse_serialize_roundtrip) code_simp
qed

subsection \<open>The parser: what it returns and when it fails\<close>

lemma parse_lines_error: "parse_lines st ls = Inl e \<Longrightarrow> e = StructuralError"
proof (induction ls arbitrary: st)
  case Nil
  then show ?case by simp
next
  case (Cons l ls)
  then show ?case
    by (auto simp: Let_def split: if_splits option.splits prod.splits)
qed

lemma parse_error_kind:
  assumes "parse max_file_size text = Inl e"
  shows "e = (if max_file_size < length text then ResourceError else StructuralError)"
  using assms parse_lines_error
  by (fastforce simp: parse_def split: if_splits list.splits option.splits prod.splits sum.splits)

lemma parse_version:
  assumes "parse max_file_size text = Inr d"
  shows "formatVersion d \<in> set SUPPORTED_FORMAT_VERSIONS \<and>
         parse_magic (hd (split_lines text)) = Some (formatVersion d, isStream d)"
  using assms
  by (auto simp: parse_def split: if_splits list.splits option.splits prod.splits sum.splits)

lemma parse_unsupported_version:
  assumes "parse_magic (hd (split_lines text)) = Some (v, stream)"
    and "v \<notin> set SUPPORTED_FORMAT_VERSIONS"
  shows "parse max_file_size text =
           Inl (if max_file_size < length text then ResourceError else StructuralError)"
proof (cases "parse max_file_size text")
  case (Inl e)
  then show ?thesis using parse_error_kind [OF Inl] by simp
next
  case (Inr d)
  from parse_version [OF Inr] assms show ?thesis by simp
qed

lemma section_headers_eof:
  "startsWith l EOF_PREFIX \<Longrightarrow> section_headers (l # ls) = []"
  by (simp add: section_headers_def)

lemma section_headers_header:
  "\<not> startsWith l EOF_PREFIX \<Longrightarrow> startsWith l SECTION_PREFIX \<Longrightarrow>
   section_headers (l # ls) = drop (length SECTION_PREFIX) l # section_headers ls"
  by (simp add: section_headers_def)

lemma section_headers_other:
  "\<not> startsWith l EOF_PREFIX \<Longrightarrow> \<not> startsWith l SECTION_PREFIX \<Longrightarrow>
   section_headers (l # ls) = section_headers ls"
  by (simp add: section_headers_def)

text \<open>The pass over the lines opens one section for each header line up to the EOF
  marker, under the name the line announces, and never closes one without keeping
  it.\<close>

lemma parse_lines_headers:
  "parse_lines st ls = Inr st' \<Longrightarrow>
   map name (close_section st') = map name (close_section st) @ section_headers ls \<and>
   list_all spec_section_name_ok (section_headers ls) \<and>
   (length (close_section st) \<le> MAX_SECTIONS \<longrightarrow> length (close_section st') \<le> MAX_SECTIONS)"
proof (induction ls arbitrary: st)
  case Nil
  then show ?case by simp
next
  case (Cons l ls)
  show ?case
  proof (cases "startsWith l EOF_PREFIX")
    case True
    with Cons.prems have "st' = st" by simp
    with True show ?thesis by (simp add: section_headers_eof)
  next
    case not_eof: False
    show ?thesis
    proof (cases "startsWith l SECTION_PREFIX")
      case True
      let ?n = "drop (length SECTION_PREFIX) l"
      let ?opened = "st\<lparr>finished := close_section st, current := Some (?n, [])\<rparr>"
      from Cons.prems not_eof True have ok: "spec_section_name_ok ?n"
        and room: "length (close_section st) < MAX_SECTIONS"
        and run: "parse_lines ?opened ls = Inr st'"
        by (auto simp: Let_def split: if_splits)
      have opened: "map name (close_section ?opened) = map name (close_section st) @ [?n]"
        "length (close_section ?opened) = Suc (length (close_section st))"
        by (simp_all add: close_section_def)
      from Cons.IH [OF run] opened room ok show ?thesis
        by (simp add: section_headers_header [OF not_eof True])
    next
      case not_header: False
      show ?thesis
      proof (cases "current st")
        case None
        with Cons.prems not_eof not_header obtain k v where
          run: "parse_lines (st\<lparr>parsed_meta := parsed_meta st @ [(k, v)]\<rparr>) ls = Inr st'"
          by (auto split: option.splits if_splits)
        have "close_section (st\<lparr>parsed_meta := parsed_meta st @ [(k, v)]\<rparr>) = close_section st"
          using None by (simp add: close_section_def)
        with Cons.IH [OF run] show ?thesis
          by (simp add: section_headers_other [OF not_eof not_header])
      next
        case (Some cur)
        obtain n body where cur: "cur = (n, body)" by (cases cur)
        from Cons.prems not_eof not_header Some cur have
          run: "parse_lines (st\<lparr>current := Some (n, body @ [l])\<rparr>) ls = Inr st'"
          by simp
        have "map name (close_section (st\<lparr>current := Some (n, body @ [l])\<rparr>))
                = map name (close_section st)"
          "length (close_section (st\<lparr>current := Some (n, body @ [l])\<rparr>))
                = length (close_section st)"
          using Some cur by (simp_all add: close_section_def)
        with Cons.IH [OF run] show ?thesis
          by (simp add: section_headers_other [OF not_eof not_header])
      qed
    qed
  qed
qed

lemma parse_sections:
  assumes "parse max_file_size text = Inr d"
  shows "map name (sections d) = section_headers (tl (split_lines text)) \<and>
         list_all (\<lambda>s. spec_section_name_ok (name s)) (sections d) \<and>
         length (sections d) \<le> MAX_SECTIONS"
proof -
  let ?init = "\<lparr>parsed_meta = [], finished = [], current = None\<rparr>"
  from assms obtain st where run: "parse_lines ?init (tl (split_lines text)) = Inr st"
    and d: "sections d = close_section st"
    by (auto simp: parse_def split: if_splits list.splits option.splits prod.splits sum.splits)
  have init: "close_section ?init = []" by (simp add: close_section_def)
  from parse_lines_headers [OF run] init
  have names: "map name (sections d) = section_headers (tl (split_lines text))"
    and ok: "list_all spec_section_name_ok (section_headers (tl (split_lines text)))"
    and count: "length (sections d) \<le> MAX_SECTIONS"
    by (simp_all add: d)
  from ok names have "list_all spec_section_name_ok (map name (sections d))" by simp
  then have "list_all (\<lambda>s. spec_section_name_ok (name s)) (sections d)"
    by (simp add: list_all_iff)
  with names count show ?thesis by simp
qed

lemma parse_invalid_sections:
  assumes "length text \<le> max_file_size"
    and "\<not> list_all spec_section_name_ok (section_headers (tl (split_lines text))) \<or>
         MAX_SECTIONS < length (section_headers (tl (split_lines text)))"
  shows "parse max_file_size text = Inl StructuralError"
proof (cases "parse max_file_size text")
  case (Inl e)
  from parse_error_kind [OF Inl] assms(1) Inl show ?thesis by simp
next
  case (Inr d)
  from parse_sections [OF Inr]
  have names: "map name (sections d) = section_headers (tl (split_lines text))"
    and ok: "list_all (\<lambda>s. spec_section_name_ok (name s)) (sections d)"
    and count: "length (sections d) \<le> MAX_SECTIONS"
    by simp_all
  from ok have "list_all spec_section_name_ok (map name (sections d))"
    by (simp add: list_all_iff)
  moreover from count have "length (map name (sections d)) \<le> MAX_SECTIONS" by simp
  ultimately have "list_all spec_section_name_ok (section_headers (tl (split_lines text)))"
    and "length (section_headers (tl (split_lines text))) \<le> MAX_SECTIONS"
    unfolding names by simp_all
  with assms(2) show ?thesis by simp
qed

lemma map_filter_replicate:
  "List.map_filter f (replicate n x) = (case f x of None \<Rightarrow> [] | Some y \<Rightarrow> replicate n y)"
  by (induction n) (simp_all add: List.map_filter_def split: option.splits)

lemma filter_replicate_all: "P y \<Longrightarrow> filter P (replicate n y) = replicate n y"
  by (induction n) simp_all

subsection \<open>The version check\<close>

text \<open>
  Claim C3, as the code behaves. The claim says every input whose version is not
  supported is rejected, by parsing and by \<open>fromJSON\<close>, with no lenient path. That
  holds of parsing: \<open>parse\<close> rejects every text whose magic line names a version
  outside the supported set, and a document it returns carries the version its magic
  line names, a supported one. It does not hold of \<open>fromJSON\<close> (the counterexample),
  which has two lenient paths. What holds of it: a PFM export (an object with a key
  \<^verbatim>\<open>sections\<close>) whose \<^verbatim>\<open>pfm_version\<close> is a string other than \<^verbatim>\<open>1.0\<close> is
  rejected with an error that names the version; a PFM export whose
  \<^verbatim>\<open>pfm_version\<close> is missing or not a string is accepted as version \<^verbatim>\<open>1.0\<close>;
  JSON that is not a PFM export is wrapped, whatever version it names, as a
  version-1.0 document with the importer's own meta and the one section
  \<^verbatim>\<open>content\<close> holding the JSON text, unless \<^verbatim>\<open>JSON.stringify\<close> throws its
  \<^verbatim>\<open>RangeError\<close>. These are the only ways a parsed input fails, and every document
  \<open>fromJSON\<close> returns has the format version \<^verbatim>\<open>1.0\<close>.
\<close>

theorem version_gate_parse_and_fromJSON:
  "(\<forall>v stream. parse_magic (hd (split_lines input)) = Some (v, stream) \<and>
       v \<notin> set SUPPORTED_FORMAT_VERSIONS \<longrightarrow>
      parse max_file_size input =
        Inl (if max_file_size < length input then ResourceError else StructuralError)) \<and>
   (\<forall>doc. parse max_file_size input = Inr doc \<longrightarrow>
      formatVersion doc \<in> set SUPPORTED_FORMAT_VERSIONS \<and>
      parse_magic (hd (split_lines input)) = Some (formatVersion doc, isStream doc)) \<and>
   (\<forall>v. is_pfm_export data \<and> property data ''pfm_version'' = Some (JStr v) \<and> v \<noteq> ''1.0'' \<longrightarrow>
      fromJSON stringify now (Some data) =
        Inl (Error (''Unsupported PFM format version: '' @ [CHR 0x27] @ v @ [CHR 0x27]))) \<and>
   (is_pfm_export data \<and> (\<forall>v. property data ''pfm_version'' \<noteq> Some (JStr v)) \<longrightarrow>
      fromJSON stringify now (Some data) =
        Inr \<lparr>formatVersion = ''1.0'', isStream = False,
             meta = safeMeta_of (property data ''meta''),
             sections = safeSections_of (rawSections_of (property data ''sections''))\<rparr>) \<and>
   (\<forall>json_text. \<not> is_pfm_export data \<and> stringify data = Some json_text \<longrightarrow>
      fromJSON stringify now (Some data) =
        Inr \<lparr>formatVersion = ''1.0'', isStream = False,
             meta = [''agent'' \<mapsto> ''json-import'', ''created'' \<mapsto> now],
             sections = [\<lparr>name = ''content'', content = json_text\<rparr>]\<rparr>) \<and>
   (\<not> is_pfm_export data \<and> stringify data = None \<longrightarrow>
      fromJSON stringify now (Some data) = Inl RangeError) \<and>
   (isl (fromJSON stringify now (Some data)) \<longleftrightarrow>
      (is_pfm_export data \<and>
       (\<exists>v. property data ''pfm_version'' = Some (JStr v) \<and> v \<noteq> ''1.0'')) \<or>
      (\<not> is_pfm_export data \<and> stringify data = None)) \<and>
   (\<forall>d. fromJSON stringify now (Some data) = Inr d \<longrightarrow> formatVersion d = ''1.0'')"
proof (intro conjI)
  show "\<forall>v stream. parse_magic (hd (split_lines input)) = Some (v, stream) \<and>
       v \<notin> set SUPPORTED_FORMAT_VERSIONS \<longrightarrow>
      parse max_file_size input =
        Inl (if max_file_size < length input then ResourceError else StructuralError)"
    using parse_unsupported_version by blast
  show "\<forall>doc. parse max_file_size input = Inr doc \<longrightarrow>
      formatVersion doc \<in> set SUPPORTED_FORMAT_VERSIONS \<and>
      parse_magic (hd (split_lines input)) = Some (formatVersion doc, isStream doc)"
    using parse_version by blast
  show "\<forall>v. is_pfm_export data \<and> property data ''pfm_version'' = Some (JStr v) \<and> v \<noteq> ''1.0'' \<longrightarrow>
      fromJSON stringify now (Some data) =
        Inl (Error (''Unsupported PFM format version: '' @ [CHR 0x27] @ v @ [CHR 0x27]))"
    by (simp add: fromJSON_def)
  show "is_pfm_export data \<and> (\<forall>v. property data ''pfm_version'' \<noteq> Some (JStr v)) \<longrightarrow>
      fromJSON stringify now (Some data) =
        Inr \<lparr>formatVersion = ''1.0'', isStream = False,
             meta = safeMeta_of (property data ''meta''),
             sections = safeSections_of (rawSections_of (property data ''sections''))\<rparr>"
    by (auto simp: fromJSON_def split: option.splits json.splits)
  show "\<forall>json_text. \<not> is_pfm_export data \<and> stringify data = Some json_text \<longrightarrow>
      fromJSON stringify now (Some data) =
        Inr \<lparr>formatVersion = ''1.0'', isStream = False,
             meta = [''agent'' \<mapsto> ''json-import'', ''created'' \<mapsto> now],
             sections = [\<lparr>name = ''content'', content = json_text\<rparr>]\<rparr>"
    by (simp add: fromJSON_def)
  show "\<not> is_pfm_export data \<and> stringify data = None \<longrightarrow>
      fromJSON stringify now (Some data) = Inl RangeError"
    by (simp add: fromJSON_def)
  show "isl (fromJSON stringify now (Some data)) \<longleftrightarrow>
      (is_pfm_export data \<and>
       (\<exists>v. property data ''pfm_version'' = Some (JStr v) \<and> v \<noteq> ''1.0'')) \<or>
      (\<not> is_pfm_export data \<and> stringify data = None)"
    by (auto simp: fromJSON_def Let_def split: option.splits json.splits if_splits)
  show "\<forall>d. fromJSON stringify now (Some data) = Inr d \<longrightarrow> formatVersion d = ''1.0''"
    by (auto simp: fromJSON_def Let_def split: option.splits json.splits if_splits)
qed

theorem version_gate_parse_and_fromJSON_witness:
  "parse 4096 (''#!PFM/2.0'' @ [newline] @ ''#!END'' @ [newline]) = Inl StructuralError \<and>
   parse 4096 (''#!PFM/1.0'' @ [newline] @ ''#!END'' @ [newline])
     = Inr \<lparr>formatVersion = ''1.0'', isStream = False, meta = [], sections = []\<rparr> \<and>
   ''1.0'' \<in> set SUPPORTED_FORMAT_VERSIONS \<and>
   fromJSON (\<lambda>data. Some []) ''2026-01-01T00:00:00Z''
     (Some (JObj [(''pfm_version'', JStr ''2.0''), (''sections'', JArr [])]))
     = Inl (Error (''Unsupported PFM format version: '' @ [CHR 0x27] @ ''2.0'' @ [CHR 0x27])) \<and>
   fromJSON (\<lambda>data. None) ''2026-01-01T00:00:00Z'' (Some (JArr [JArr [JArr []]]))
     = Inl RangeError"
proof (intro conjI)
  let ?old = "''#!PFM/2.0'' @ [newline] @ ''#!END'' @ [newline]"
  let ?new = "''#!PFM/1.0'' @ [newline] @ ''#!END'' @ [newline]"
  let ?now = "''2026-01-01T00:00:00Z''"
  have magic: "parse_magic (hd (split_lines ?old)) = Some (''2.0'', False)" by code_simp
  have unknown: "''2.0'' \<notin> set SUPPORTED_FORMAT_VERSIONS"
    by (simp add: SUPPORTED_FORMAT_VERSIONS_def)
  have fits: "\<not> 4096 < length ?old" by simp
  from version_gate_parse_and_fromJSON [where input = ?old and max_file_size = 4096
         and data = JNull and stringify = "\<lambda>data. None" and now = ?now]
       magic unknown
  have "parse 4096 ?old = Inl (if 4096 < length ?old then ResourceError else StructuralError)"
    by blast
  with fits show "parse 4096 ?old = Inl StructuralError" by (simp only: if_False)
  have run: "parse 4096 ?new
     = Inr \<lparr>formatVersion = ''1.0'', isStream = False, meta = [], sections = []\<rparr>"
    by code_simp
  then show "parse 4096 ?new
     = Inr \<lparr>formatVersion = ''1.0'', isStream = False, meta = [], sections = []\<rparr>" .
  from version_gate_parse_and_fromJSON [where input = ?new and max_file_size = 4096
         and data = JNull and stringify = "\<lambda>data. None" and now = ?now] run
  have "formatVersion \<lparr>formatVersion = ''1.0'', isStream = False,
                       meta = ([] :: (string \<times> string) list), sections = []\<rparr>
          \<in> set SUPPORTED_FORMAT_VERSIONS"
    by blast
  then show "''1.0'' \<in> set SUPPORTED_FORMAT_VERSIONS" by simp
  let ?v2 = "JObj [(''pfm_version'', JStr ''2.0''), (''sections'', JArr [])]"
  have export: "is_pfm_export ?v2 \<and> property ?v2 ''pfm_version'' = Some (JStr ''2.0'') \<and>
      ''2.0'' \<noteq> ''1.0''"
    by (simp add: is_pfm_export_def property_def)
  from version_gate_parse_and_fromJSON [where input = ?new and max_file_size = 4096
         and data = ?v2 and stringify = "\<lambda>data. Some []" and now = ?now] export
  show "fromJSON (\<lambda>data. Some []) ?now (Some ?v2)
     = Inl (Error (''Unsupported PFM format version: '' @ [CHR 0x27] @ ''2.0'' @ [CHR 0x27]))"
    by blast
  let ?deep = "JArr [JArr [JArr []]]"
  have raw: "\<not> is_pfm_export ?deep \<and> (\<lambda>data :: json. None :: string option) ?deep = None"
    by (simp add: is_pfm_export_def)
  from version_gate_parse_and_fromJSON [where input = ?new and max_file_size = 4096
         and data = ?deep and stringify = "\<lambda>data. None" and now = ?now] raw
  show "fromJSON (\<lambda>data. None) ?now (Some ?deep) = Inl RangeError"
    by blast
qed

theorem fromJSON_lenient_version_counterexample:
  "fromJSON (\<lambda>data. Some []) ''2026-01-01T00:00:00Z''
     (Some (JObj [(''pfm_version'', JNum 2), (''sections'', JArr [])]))
   = Inr \<lparr>formatVersion = ''1.0'', isStream = False, meta = Map.empty, sections = []\<rparr> \<and>
   fromJSON (\<lambda>data. Some ''the JSON text'') ''2026-01-01T00:00:00Z''
     (Some (JObj [(''pfm_version'', JStr ''2.0'')]))
   = Inr \<lparr>formatVersion = ''1.0'', isStream = False,
          meta = [''agent'' \<mapsto> ''json-import'', ''created'' \<mapsto> ''2026-01-01T00:00:00Z''],
          sections = [\<lparr>name = ''content'', content = ''the JSON text''\<rparr>]\<rparr>"
  by (simp add: fromJSON_def is_pfm_export_def property_def safeMeta_of_def rawSections_of_def
      safeSections_of_eq)

subsection \<open>Invalid sections\<close>

text \<open>
  Claim C5, as the code behaves. The claim says an input with an invalid section (a
  bad name, an exceeded limit) makes \<open>parse\<close> and \<open>fromJSON\<close> fail rather than
  return a document without that section. That holds of parsing: a document \<open>parse\<close>
  returns has one section for each section header of the text, in order and under the
  name the header announces, every name is valid and there are at most 10,000 of them;
  so a text within the size ceiling that has a header with an invalid name, or more
  than 10,000 headers, fails with a structural error. It does not hold of \<open>fromJSON\<close>
  (the counterexample): for a PFM export whose version passes, \<open>fromJSON\<close> succeeds
  whatever the sections are, and the sections of the document are exactly the input
  elements that are objects with a string name, a string content and a valid name, in
  input order, however many they are; every other element is left out without an
  error. So no section of the result has an invalid name, and no ceiling on their
  number is applied.
\<close>

theorem invalid_sections_parse_fails_fromJSON_filters:
  "(\<forall>doc. parse max_file_size input = Inr doc \<longrightarrow>
      map name (sections doc) = section_headers (tl (split_lines input)) \<and>
      list_all (\<lambda>s. spec_section_name_ok (name s)) (sections doc) \<and>
      length (sections doc) \<le> MAX_SECTIONS) \<and>
   (length input \<le> max_file_size \<and>
    (\<not> list_all spec_section_name_ok (section_headers (tl (split_lines input))) \<or>
     MAX_SECTIONS < length (section_headers (tl (split_lines input)))) \<longrightarrow>
      parse max_file_size input = Inl StructuralError) \<and>
   (is_pfm_export data \<and> (\<forall>v. property data ''pfm_version'' = Some (JStr v) \<longrightarrow> v = ''1.0'') \<longrightarrow>
      (\<exists>d. fromJSON stringify now (Some data) = Inr d \<and>
           sections d = filter name_filter
             (List.map_filter as_section (rawSections_of (property data ''sections''))) \<and>
           list_all (\<lambda>s. spec_section_name_ok (name s)) (sections d)))"
proof (intro conjI)
  show "\<forall>doc. parse max_file_size input = Inr doc \<longrightarrow>
      map name (sections doc) = section_headers (tl (split_lines input)) \<and>
      list_all (\<lambda>s. spec_section_name_ok (name s)) (sections doc) \<and>
      length (sections doc) \<le> MAX_SECTIONS"
    using parse_sections by blast
  show "length input \<le> max_file_size \<and>
    (\<not> list_all spec_section_name_ok (section_headers (tl (split_lines input))) \<or>
     MAX_SECTIONS < length (section_headers (tl (split_lines input)))) \<longrightarrow>
      parse max_file_size input = Inl StructuralError"
    using parse_invalid_sections by blast
  show "is_pfm_export data \<and> (\<forall>v. property data ''pfm_version'' = Some (JStr v) \<longrightarrow> v = ''1.0'') \<longrightarrow>
      (\<exists>d. fromJSON stringify now (Some data) = Inr d \<and>
           sections d = filter name_filter
             (List.map_filter as_section (rawSections_of (property data ''sections''))) \<and>
           list_all (\<lambda>s. spec_section_name_ok (name s)) (sections d))"
    by (auto simp: fromJSON_def safeSections_of_eq list_all_iff name_filter_iff
        split: option.splits json.splits)
qed

theorem invalid_sections_parse_fails_fromJSON_filters_witness:
  "parse 4096 (''#!PFM/1.0'' @ [newline] @ ''#@meta'' @ [newline] @ ''x'' @ [newline]
               @ ''#@notes'' @ [newline] @ ''y'' @ [newline] @ ''#!END'' @ [newline])
     = Inl StructuralError \<and>
   section_headers (tl (split_lines
     (''#!PFM/1.0'' @ [newline] @ ''#@notes'' @ [newline] @ ''y'' @ [newline]
      @ ''#@log'' @ [newline] @ ''#!END'' @ [newline])))
     = map name [\<lparr>name = ''notes'', content = ''y''\<rparr>, \<lparr>name = ''log'', content = []\<rparr>] \<and>
   (\<exists>d. fromJSON (\<lambda>data. Some []) ''2026-01-01T00:00:00Z''
         (Some (JObj [(''pfm_version'', JStr ''1.0''),
                      (''sections'', JArr
                         [JObj [(''name'', JStr ''index''), (''content'', JStr ''x'')],
                          JObj [(''name'', JStr ''notes''), (''content'', JStr ''y'')],
                          JStr ''stray''])])) = Inr d \<and>
       sections d = [\<lparr>name = ''notes'', content = ''y''\<rparr>])"
proof (intro conjI)
  let ?bad = "''#!PFM/1.0'' @ [newline] @ ''#@meta'' @ [newline] @ ''x'' @ [newline]
               @ ''#@notes'' @ [newline] @ ''y'' @ [newline] @ ''#!END'' @ [newline]"
  let ?good = "''#!PFM/1.0'' @ [newline] @ ''#@notes'' @ [newline] @ ''y'' @ [newline]
      @ ''#@log'' @ [newline] @ ''#!END'' @ [newline]"
  let ?data = "JObj [(''pfm_version'', JStr ''1.0''),
                      (''sections'', JArr
                         [JObj [(''name'', JStr ''index''), (''content'', JStr ''x'')],
                          JObj [(''name'', JStr ''notes''), (''content'', JStr ''y'')],
                          JStr ''stray''])]"
  let ?now = "''2026-01-01T00:00:00Z''"
  have headers: "section_headers (tl (split_lines ?bad)) = [''meta'', ''notes'']"
    by code_simp
  have reserved: "\<not> spec_section_name_ok ''meta''"
    by (simp add: spec_section_name_ok_def)
  have bad: "length ?bad \<le> 4096 \<and>
      (\<not> list_all spec_section_name_ok (section_headers (tl (split_lines ?bad))) \<or>
       MAX_SECTIONS < length (section_headers (tl (split_lines ?bad))))"
    unfolding headers using reserved by simp
  from invalid_sections_parse_fails_fromJSON_filters
         [where input = ?bad and max_file_size = 4096 and data = ?data
            and stringify = "\<lambda>data. Some []" and now = ?now] bad
  show "parse 4096 ?bad = Inl StructuralError" by blast
  have run: "parse 4096 ?good
     = Inr \<lparr>formatVersion = ''1.0'', isStream = False, meta = [],
            sections = [\<lparr>name = ''notes'', content = ''y''\<rparr>, \<lparr>name = ''log'', content = []\<rparr>]\<rparr>"
    by code_simp
  from invalid_sections_parse_fails_fromJSON_filters
         [where input = ?good and max_file_size = 4096 and data = ?data
            and stringify = "\<lambda>data. Some []" and now = ?now] run
  have "map name (sections \<lparr>formatVersion = ''1.0'', isStream = False,
            meta = ([] :: (string \<times> string) list),
            sections = [\<lparr>name = ''notes'', content = ''y''\<rparr>, \<lparr>name = ''log'', content = []\<rparr>]\<rparr>)
        = section_headers (tl (split_lines ?good))"
    by blast
  then show "section_headers (tl (split_lines ?good))
     = map name [\<lparr>name = ''notes'', content = ''y''\<rparr>, \<lparr>name = ''log'', content = []\<rparr>]"
    by simp
  have export: "is_pfm_export ?data \<and>
      (\<forall>v. property ?data ''pfm_version'' = Some (JStr v) \<longrightarrow> v = ''1.0'')"
    by (simp add: is_pfm_export_def property_def)
  have kept: "filter name_filter
                (List.map_filter as_section (rawSections_of (property ?data ''sections'')))
              = [\<lparr>name = ''notes'', content = ''y''\<rparr>]"
    by (simp add: property_def rawSections_of_def as_section_def List.map_filter_def
        name_filter_iff spec_section_name_ok_def spec_name_chars_def)
  from invalid_sections_parse_fails_fromJSON_filters
         [where input = ?good and max_file_size = 4096 and data = ?data
            and stringify = "\<lambda>data. Some []" and now = ?now] export
  show "\<exists>d. fromJSON (\<lambda>data. Some []) ?now (Some ?data) = Inr d \<and>
       sections d = [\<lparr>name = ''notes'', content = ''y''\<rparr>]"
    unfolding kept by blast
qed

theorem fromJSON_drops_invalid_section_counterexample:
  "fromJSON (\<lambda>data. Some []) ''2026-01-01T00:00:00Z''
     (Some (JObj [(''sections'', JArr
        [JObj [(''name'', JStr ''meta''), (''content'', JStr ''x'')],
         JObj [(''name'', JStr ''notes''), (''content'', JStr ''y'')]])]))
   = Inr \<lparr>formatVersion = ''1.0'', isStream = False, meta = Map.empty,
          sections = [\<lparr>name = ''notes'', content = ''y''\<rparr>]\<rparr> \<and>
   fromJSON (\<lambda>data. Some []) ''2026-01-01T00:00:00Z''
     (Some (JObj [(''sections'', JArr
        (replicate 10001 (JObj [(''name'', JStr ''a''), (''content'', JStr ''x'')])))]))
   = Inr \<lparr>formatVersion = ''1.0'', isStream = False, meta = Map.empty,
          sections = replicate 10001 \<lparr>name = ''a'', content = ''x''\<rparr>\<rparr> \<and>
   MAX_SECTIONS < length (replicate 10001 \<lparr>name = ''a'', content = ''x''\<rparr>)"
proof (intro conjI)
  show "fromJSON (\<lambda>data. Some []) ''2026-01-01T00:00:00Z''
     (Some (JObj [(''sections'', JArr
        [JObj [(''name'', JStr ''meta''), (''content'', JStr ''x'')],
         JObj [(''name'', JStr ''notes''), (''content'', JStr ''y'')]])]))
   = Inr \<lparr>formatVersion = ''1.0'', isStream = False, meta = Map.empty,
          sections = [\<lparr>name = ''notes'', content = ''y''\<rparr>]\<rparr>"
    by (simp add: fromJSON_def is_pfm_export_def property_def safeMeta_of_def rawSections_of_def
        safeSections_of_eq as_section_def List.map_filter_def name_filter_iff
        spec_section_name_ok_def spec_name_chars_def)
  have one: "as_section (JObj [(''name'', JStr ''a''), (''content'', JStr ''x'')])
             = Some \<lparr>name = ''a'', content = ''x''\<rparr>"
    by (simp add: as_section_def)
  have valid: "name_filter \<lparr>name = ''a'', content = ''x''\<rparr>"
    by (simp add: name_filter_iff spec_section_name_ok_def spec_name_chars_def)
  have all: "safeSections_of
               (replicate 10001 (JObj [(''name'', JStr ''a''), (''content'', JStr ''x'')]))
             = replicate 10001 \<lparr>name = ''a'', content = ''x''\<rparr>"
    by (simp add: safeSections_of_eq map_filter_replicate one filter_replicate_all [of name_filter, OF valid])
  show "fromJSON (\<lambda>data. Some []) ''2026-01-01T00:00:00Z''
     (Some (JObj [(''sections'', JArr
        (replicate 10001 (JObj [(''name'', JStr ''a''), (''content'', JStr ''x'')])))]))
   = Inr \<lparr>formatVersion = ''1.0'', isStream = False, meta = Map.empty,
          sections = replicate 10001 \<lparr>name = ''a'', content = ''x''\<rparr>\<rparr>"
    by (simp add: fromJSON_def is_pfm_export_def property_def safeMeta_of_def rawSections_of_def
        all)
  show "MAX_SECTIONS < length (replicate 10001 \<lparr>name = ''a'', content = ''x''\<rparr>)"
    by (simp add: MAX_SECTIONS_def)
qed

end
